theory Spec2Isabelle
  imports Complex_Main "HOL-Library.Sublist"
begin


section \<open>Python values, exceptions and dictionary operations\<close>

text \<open>
  The relay client (\<^verbatim>\<open>server.py\<close>) works on decoded JSON: the body of the HTTP response
  and the raw Jupyter messages in it are untyped Python values. They are modelled as a
  JSON datatype; a Python \<^verbatim>\<open>dict\<close> is an association list in insertion order (the order
  \<^verbatim>\<open>list(data.keys())\<close> enumerates). A string is a list of characters, each character one
  code point below 256. Numbers are never inspected by the code below.
\<close>

datatype json =
    JNull
  | JBool bool
  | JNum int
  | JStr string
  | JArr "json list"
  | JObj "(string \<times> json) list"

text \<open>
  Every exception the modelled code can raise or let through. \<open>Exception msg\<close> is a plain
  \<^verbatim>\<open>raise Exception(msg)\<close>; \<open>CancelledError\<close> derives from \<^verbatim>\<open>BaseException\<close> only.
\<close>

datatype py_error =
    KeyError string
  | TypeError
  | AttributeError
  | IndexError
  | ValidationError
  | JSONDecodeError
  | ClientError string
  | TimeoutError
  | HTTPException nat string
  | Exception string
  | RuntimeError string
  | CancelledError

definition py_bind :: "py_error + 'a \<Rightarrow> ('a \<Rightarrow> py_error + 'b) \<Rightarrow> py_error + 'b" where
  "py_bind r f = (case r of Inl e \<Rightarrow> Inl e | Inr v \<Rightarrow> f v)"

text \<open>\<^verbatim>\<open>obj[key]\<close> with a string key: only a dict can be subscripted by a string.\<close>

fun subscript :: "json \<Rightarrow> string \<Rightarrow> py_error + json" where
  "subscript (JObj d) k = (case map_of d k of None \<Rightarrow> Inl (KeyError k) | Some v \<Rightarrow> Inr v)"
| "subscript _ k = Inl TypeError"

text \<open>\<^verbatim>\<open>obj.get(key, default)\<close>: a method of dicts only.\<close>

fun py_get :: "json \<Rightarrow> string \<Rightarrow> json \<Rightarrow> py_error + json" where
  "py_get (JObj d) k dflt = (case map_of d k of None \<Rightarrow> Inr dflt | Some v \<Rightarrow> Inr v)"
| "py_get _ k dflt = Inl AttributeError"

text \<open>\<^verbatim>\<open>list(obj.keys())\<close>.\<close>

fun py_keys :: "json \<Rightarrow> py_error + string list" where
  "py_keys (JObj d) = Inr (map fst d)"
| "py_keys _ = Inl AttributeError"

text \<open>
  Iteration (\<^verbatim>\<open>for x in obj\<close>, \<^verbatim>\<open>sep.join(obj)\<close>): a list yields its elements, a dict its
  keys, a string its characters; nothing else is iterable.
\<close>

fun py_iter :: "json \<Rightarrow> py_error + json list" where
  "py_iter (JArr xs) = Inr xs"
| "py_iter (JObj d) = Inr (map (\<lambda>kv. JStr (fst kv)) d)"
| "py_iter (JStr s) = Inr (map (\<lambda>c. JStr [c]) s)"
| "py_iter _ = Inl TypeError"

text \<open>Truth value of a Python object, as \<^verbatim>\<open>not x\<close> tests it.\<close>

fun truthy :: "json \<Rightarrow> bool" where
  "truthy JNull = False"
| "truthy (JBool b) = b"
| "truthy (JNum n) = (n \<noteq> 0)"
| "truthy (JStr s) = (s \<noteq> [])"
| "truthy (JArr xs) = (xs \<noteq> [])"
| "truthy (JObj d) = (d \<noteq> [])"

text \<open>
  \<^verbatim>\<open>f"{x}"\<close>: a string is inserted as it is, \<^verbatim>\<open>None\<close> and booleans by their names; the text
  of a number or a container is Python's \<^verbatim>\<open>repr\<close>, a parameter here.
\<close>

fun py_format :: "(json \<Rightarrow> string) \<Rightarrow> json \<Rightarrow> string" where
  "py_format py_repr (JStr s) = s"
| "py_format py_repr JNull = ''None''"
| "py_format py_repr (JBool b) = (if b then ''True'' else ''False'')"
| "py_format py_repr v = py_repr v"

text \<open>\<^verbatim>\<open>sep.join(xs)\<close> on strings, and on an arbitrary value (\<^verbatim>\<open>TypeError\<close> on a non-string item).\<close>

fun join :: "string \<Rightarrow> string list \<Rightarrow> string" where
  "join sep [] = []"
| "join sep [x] = x"
| "join sep (x # y # ys) = x @ sep @ join sep (y # ys)"

fun as_strings :: "json list \<Rightarrow> py_error + string list" where
  "as_strings [] = Inr []"
| "as_strings (JStr s # vs) = py_bind (as_strings vs) (\<lambda>ss. Inr (s # ss))"
| "as_strings (_ # vs) = Inl TypeError"

definition py_join :: "string \<Rightarrow> json \<Rightarrow> py_error + string" where
  "py_join sep v = py_bind (py_iter v) (\<lambda>items. py_bind (as_strings items) (\<lambda>ss. Inr (join sep ss)))"

section \<open>Output model (\<^verbatim>\<open>code_sandbox_types.py\<close>)\<close>

record KernelOutput =
  mime_type :: string
  content :: string
  is_error :: bool

text \<open>
  \<^verbatim>\<open>KernelOutput(mime_type=..., content=..., is_error=...)\<close>: the pydantic (version 2) model
  declares \<^verbatim>\<open>content: str\<close> and rejects any other JSON value. The mime type is always a
  string literal or a dict key, the flag always a literal.
\<close>

fun kernel_output :: "string \<Rightarrow> json \<Rightarrow> bool \<Rightarrow> py_error + KernelOutput" where
  "kernel_output mt (JStr s) err = Inr \<lparr>mime_type = mt, content = s, is_error = err\<rparr>"
| "kernel_output mt _ err = Inl ValidationError"

section \<open>Message translator (\<^verbatim>\<open>ContainerKernelClient._process_messages\<close>)\<close>

text \<open>\<^verbatim>\<open>results.append(KernelOutput(...))\<close>: the outputs one message adds to \<^verbatim>\<open>results\<close>.\<close>

definition append_output :: "py_error + KernelOutput \<Rightarrow> py_error + KernelOutput list" where
  "append_output r = py_bind r (\<lambda>out. Inr [out])"

text \<open>
  The body of the \<^verbatim>\<open>for message in messages\<close> loop. \<open>dumps\<close> is \<^verbatim>\<open>json.dumps\<close>.
\<close>

definition process_message :: "(json \<Rightarrow> string) \<Rightarrow> json \<Rightarrow> py_error + KernelOutput list" where
  "process_message dumps message =
     py_bind (py_get message ''msg_type'' JNull) (\<lambda>msg_type.
       if msg_type = JStr ''stream'' then
         py_bind (subscript message ''content'') (\<lambda>c.
         py_bind (subscript c ''text'') (\<lambda>t.
           append_output (kernel_output ''text/plain'' t False)))
       else if msg_type = JStr ''display_data'' \<or> msg_type = JStr ''execute_result'' then
         py_bind (subscript message ''content'') (\<lambda>c.
         py_bind (subscript c ''data'') (\<lambda>data.
         py_bind (py_keys data) (\<lambda>mime_types.
           if list_ex (sublist ''image'') mime_types then
             (case filter (sublist ''image'') mime_types of
                [] \<Rightarrow> Inl IndexError
              | mt # _ \<Rightarrow>
                  py_bind (subscript data mt) (\<lambda>v.
                    append_output (kernel_output mt v False)))
           else if ''text/markdown'' \<in> set mime_types then
             py_bind (subscript data ''text/markdown'') (\<lambda>v.
               append_output (kernel_output ''text/markdown'' v False))
           else if ''text/html'' \<in> set mime_types then
             py_bind (subscript data ''text/html'') (\<lambda>v.
               append_output (kernel_output ''text/html'' v False))
           else if ''application/json'' \<in> set mime_types then
             py_bind (subscript data ''application/json'') (\<lambda>v.
               append_output (kernel_output ''application/json'' (JStr (dumps v)) False))
           else
             py_bind (subscript data ''text/plain'') (\<lambda>v.
               append_output (kernel_output ''text/plain'' v False)))))
       else if msg_type = JStr ''error'' then
         py_bind (subscript message ''content'') (\<lambda>c.
         py_bind (subscript c ''traceback'') (\<lambda>tb.
         py_bind (py_join ''\<newline>'' tb) (\<lambda>s.
           append_output (kernel_output ''text/plain'' (JStr s) True))))
       else Inr [])"

text \<open>The loop: an exception in one message abandons the whole translation.\<close>

fun process_loop :: "(json \<Rightarrow> string) \<Rightarrow> json list \<Rightarrow> KernelOutput list \<Rightarrow> py_error + KernelOutput list" where
  "process_loop dumps [] results = Inr results"
| "process_loop dumps (message # rest) results =
     (case process_message dumps message of
        Inl e \<Rightarrow> Inl e
      | Inr outs \<Rightarrow> process_loop dumps rest (results @ outs))"

definition process_messages :: "(json \<Rightarrow> string) \<Rightarrow> json \<Rightarrow> py_error + KernelOutput list" where
  "process_messages dumps messages =
     py_bind (py_iter messages) (\<lambda>ms. process_loop dumps ms [])"

section \<open>Relay client (\<^verbatim>\<open>ContainerKernelClient.execute_code\<close>)\<close>

text \<open>
  What the client reads from an HTTP response: \<^verbatim>\<open>response.status\<close>, \<^verbatim>\<open>await response.text()\<close>
  and \<^verbatim>\<open>await response.json()\<close>, which raises on a body that is not JSON.
\<close>

record HttpResponse =
  status :: nat
  text_body :: string
  json_body :: "py_error + json"

text \<open>\<^verbatim>\<open>except aiohttp.ClientError as e: raise Exception(f"Failed to connect ...: {str(e)}")\<close>.\<close>

fun on_client_error :: "py_error + 'a \<Rightarrow> py_error + 'a" where
  "on_client_error (Inl (ClientError s)) =
     Inl (Exception (''Failed to connect to container service: '' @ s))"
| "on_client_error r = r"

text \<open>
  \<open>post url payload\<close> is \<^verbatim>\<open>session.post(url, json=payload)\<close>: the environment's answer, or
  the exception the transport raises.
\<close>

definition execute_code ::
  "(json \<Rightarrow> string) \<Rightarrow> (json \<Rightarrow> string) \<Rightarrow> (string \<Rightarrow> json \<Rightarrow> py_error + HttpResponse) \<Rightarrow>
   string \<Rightarrow> string \<Rightarrow> string \<Rightarrow> string \<Rightarrow> py_error + KernelOutput list" where
  "execute_code dumps py_repr post base_url kernel_id code language =
     (let payload = JObj [(''kernel_id'', JStr kernel_id), (''code'', JStr code),
                          (''language'', JStr language)]
      in on_client_error
           (py_bind (post (base_url @ ''/execute'') payload) (\<lambda>response.
              if status response \<noteq> 200 then
                Inl (Exception (''Container service error: '' @ text_body response))
              else
                py_bind (json_body response) (\<lambda>result.
                py_bind (subscript result ''success'') (\<lambda>ok.
                  if \<not> truthy ok then
                    py_bind (py_get result ''error'' (JStr ''Unknown error'')) (\<lambda>err.
                      Inl (Exception (''Execution failed: '' @ py_format py_repr err)))
                  else
                    py_bind (subscript result ''messages'') (process_messages dumps))))))"

text \<open>The one exception that the handler of \<open>execute_code\<close> rewrites.\<close>

definition is_client_error :: "py_error + 'a \<Rightarrow> bool" where
  "is_client_error r = (\<exists>s. r = Inl (ClientError s))"

section \<open>The priority table of the specification\<close>

text \<open>
  The specification words the choice of a representation as an ordered priority table:
  every offered mime type that contains \<^verbatim>\<open>image\<close> (in the order offered), then
  \<^verbatim>\<open>text/markdown\<close>, \<^verbatim>\<open>text/html\<close>, \<^verbatim>\<open>application/json\<close>, \<^verbatim>\<open>text/plain\<close>; the first
  candidate that the event offers is chosen. This definition follows the specification,
  not the code; \<open>process_message\<close> above is the code.
\<close>

definition mime_candidates :: "string list \<Rightarrow> string list" where
  "mime_candidates keys =
     filter (sublist ''image'') keys @
     [''text/markdown'', ''text/html'', ''application/json'', ''text/plain'']"

definition select_representation :: "(string \<times> json) list \<Rightarrow> (string \<times> json) option" where
  "select_representation d =
     (case find (\<lambda>mt. mt \<in> set (map fst d)) (mime_candidates (map fst d)) of
        None \<Rightarrow> None
      | Some mt \<Rightarrow> map_option (Pair mt) (map_of d mt))"


section \<open>Kernel service (\<^verbatim>\<open>container_service/kernel_service.py\<close>)\<close>

subsection \<open>Outcomes of awaited calls\<close>

text \<open>
  A coroutine of the service returns a value, raises, or never returns (it awaits a
  message or a lock that never comes). A returned value and a raised exception come with
  the state the call leaves behind.
\<close>

datatype ('a, 'w) outcome = Returns 'a 'w | Raises py_error 'w | Hangs

subsection \<open>Request and response models\<close>

record ExecuteRequest =
  kernel_id :: string
  code :: string
  language :: string

record ExecuteResponse =
  success :: bool
  messages :: "json list"
  error :: "string option"

subsection \<open>String helpers of Python\<close>

text \<open>
  \<^verbatim>\<open>str.isspace\<close> on the code points below 256: tab to carriage return, the four
  separators 28 to 31, space, NEL and the no-break space. \<^verbatim>\<open>str.strip()\<close> removes such
  characters from both ends.
\<close>

definition py_isspace :: "char \<Rightarrow> bool" where
  "py_isspace c = ((of_char c :: nat) \<in> {9, 10, 11, 12, 13, 28, 29, 30, 31, 32, 133, 160})"

definition strip :: "string \<Rightarrow> string" where
  "strip s = rev (dropWhile py_isspace (rev (dropWhile py_isspace s)))"

subsection \<open>Preloaded libraries (\<^verbatim>\<open>jupyter_imports.py\<close>)\<close>

text \<open>
  A library is a dict with the keys \<^verbatim>\<open>name\<close> and \<^verbatim>\<open>alias\<close> (the field \<open>alias_as\<close>) and
  optionally \<^verbatim>\<open>pip\<close>.
\<close>

record library =
  pip :: "string option"
  name :: string
  alias_as :: string

definition KERNEL_LIBRARIES :: "library list" where
  "KERNEL_LIBRARIES =
     [\<lparr>pip = Some ''pandas'', name = ''pandas'', alias_as = ''pd''\<rparr>,
      \<lparr>pip = Some ''numpy'', name = ''numpy'', alias_as = ''np''\<rparr>,
      \<lparr>pip = Some ''matplotlib'', name = ''matplotlib.pyplot'', alias_as = ''plt''\<rparr>,
      \<lparr>pip = Some ''seaborn'', name = ''seaborn'', alias_as = ''sns''\<rparr>]"

text \<open>The text that the loop of \<^verbatim>\<open>import_libraries\<close> adds to \<^verbatim>\<open>code\<close> for one library.\<close>

definition import_lines :: "library \<Rightarrow> string" where
  "import_lines lib =
     (case pip lib of None \<Rightarrow> [] | Some p \<Rightarrow> ''!pip install '' @ p @ ''\<newline>'') @
     ''import '' @ name lib @ '' as '' @ alias_as lib @ ''\<newline>'' @
     (if sublist ''matplotlib'' (name lib) then ''%matplotlib inline\<newline>'' else [])"

subsection \<open>The interpreter behind a session\<close>

text \<open>
  The Jupyter kernel is external. \<open>'k\<close> is the state of one kernel process as its
  \<^verbatim>\<open>AsyncKernelManager\<close> holds it. What \<^verbatim>\<open>await kc.get_iopub_msg()\<close> will do next is an item
  of the iopub channel: deliver a message, or raise (a cancellation of the awaiting task
  is raised there as \<open>CancelledError\<close>). On an empty channel the call waits.
\<close>

datatype iopub_item = Msg json | Fails py_error

record 'k jupyter =
  new_manager :: "'k"
  km_start_kernel :: "'k \<Rightarrow> string \<Rightarrow> py_error + 'k"
  kc_wait_for_ready :: "'k \<Rightarrow> py_error + iopub_item list"
  kc_execute :: "'k \<Rightarrow> string \<Rightarrow> 'k \<times> iopub_item list"
  km_shutdown_kernel :: "'k \<Rightarrow> py_error + 'k"

text \<open>
  \<open>new_manager\<close> is \<^verbatim>\<open>AsyncKernelManager()\<close>; \<open>km_start_kernel\<close> launches the process in a
  working directory; \<open>kc_wait_for_ready\<close> returns with the items left unread on the iopub
  channel of the new client; \<open>kc_execute k code\<close> hands the code to the interpreter and
  gives the items it publishes for it; \<open>km_shutdown_kernel\<close> stops the process.
\<close>

subsection \<open>\<^verbatim>\<open>class JupyterKernel\<close>\<close>

record kernel_client =
  channels_running :: bool
  iopub :: "iopub_item list"

record 'k JupyterKernel =
  km :: "'k"
  kc :: "kernel_client option"
  execution_lock :: bool

definition JupyterKernel_init :: "'k jupyter \<Rightarrow> 'k JupyterKernel" where
  "JupyterKernel_init env = \<lparr>km = new_manager env, kc = None, execution_lock = False\<rparr>"

definition start :: "'k jupyter \<Rightarrow> 'k JupyterKernel \<Rightarrow> string \<Rightarrow> (unit, 'k JupyterKernel) outcome" where
  "start env self working_dir =
     (case km_start_kernel env (km self) working_dir of
        Inl e \<Rightarrow> Raises e self
      | Inr k \<Rightarrow>
          (let self1 = self\<lparr>km := k, kc := Some \<lparr>channels_running = True, iopub = []\<rparr>\<rparr>
           in case kc_wait_for_ready env k of
                Inl e \<Rightarrow> Raises e self1
              | Inr unread \<Rightarrow>
                  Returns () (self1\<lparr>kc := Some \<lparr>channels_running = True, iopub = unread\<rparr>\<rparr>)))"

text \<open>
  The test that ends the loop of \<^verbatim>\<open>execute_raw\<close>:
  \<^verbatim>\<open>msg_type == "status" and reply["content"]["execution_state"] == "idle"\<close>.
\<close>

definition is_idle :: "json \<Rightarrow> json \<Rightarrow> py_error + bool" where
  "is_idle msg_type reply =
     (if msg_type = JStr ''status'' then
        py_bind (subscript reply ''content'') (\<lambda>c.
        py_bind (subscript c ''execution_state'') (\<lambda>st. Inr (st = JStr ''idle'')))
      else Inr False)"

text \<open>
  The \<^verbatim>\<open>while True\<close> loop of \<^verbatim>\<open>execute_raw\<close> together with the caller's
  \<^verbatim>\<open>async for message in ...: messages.append(message)\<close>: the messages yielded so far are
  \<open>acc\<close>. The result is what the caller ends with (\<open>None\<close>: it waits forever) and the
  unread rest of the channel. A \<open>CancelledError\<close> is caught and ends the generator.
\<close>

fun iopub_loop :: "iopub_item list \<Rightarrow> json list \<Rightarrow> (py_error + json list) option \<times> iopub_item list" where
  "iopub_loop [] acc = (None, [])"
| "iopub_loop (Fails e # rest) acc =
     (if e = CancelledError then (Some (Inr acc), rest) else (Some (Inl e), rest))"
| "iopub_loop (Msg reply # rest) acc =
     (case py_get reply ''msg_type'' JNull of
        Inl e \<Rightarrow> (Some (Inl e), rest)
      | Inr msg_type \<Rightarrow>
          (case is_idle msg_type reply of
             Inl e \<Rightarrow> (Some (Inl e), rest)
           | Inr True \<Rightarrow> (Some (Inr (acc @ [reply])), rest)
           | Inr False \<Rightarrow> iopub_loop rest (acc @ [reply])))"

text \<open>
  \<^verbatim>\<open>execute_raw\<close>, run with no other task on the session: a held execution lock is never
  released, so the call waits forever.
\<close>

definition execute_raw :: "'k jupyter \<Rightarrow> 'k JupyterKernel \<Rightarrow> string \<Rightarrow> (json list, 'k JupyterKernel) outcome" where
  "execute_raw env self src =
     (if execution_lock self then Hangs
      else case kc self of
        None \<Rightarrow> Raises AttributeError self
      | Some client \<Rightarrow>
          (case kc_execute env (km self) src of (k, published) \<Rightarrow>
             (case iopub_loop (iopub client @ published) [] of (res, unread) \<Rightarrow>
                (let self1 = self\<lparr>km := k, kc := Some (client\<lparr>iopub := unread\<rparr>)\<rparr>
                 in case res of
                      None \<Rightarrow> Hangs
                    | Some (Inl e) \<Rightarrow> Raises e self1
                    | Some (Inr msgs) \<Rightarrow> Returns msgs self1))))"

definition import_libraries :: "'k jupyter \<Rightarrow> 'k JupyterKernel \<Rightarrow> library list \<Rightarrow> (unit, 'k JupyterKernel) outcome" where
  "import_libraries env self libraries =
     (case execute_raw env self (concat (map import_lines libraries)) of
        Returns msgs self1 \<Rightarrow> Returns () self1
      | Raises e self1 \<Rightarrow> Raises e self1
      | Hangs \<Rightarrow> Hangs)"


subsection \<open>\<^verbatim>\<open>class KernelManager\<close>\<close>

text \<open>
  The two dictionaries of the pool. A lock is its \<^verbatim>\<open>locked\<close> flag; \<open>pool_lock\<close> is
  \<^verbatim>\<open>self._lock\<close>.
\<close>

record 'k KernelManager =
  kernels :: "string \<rightharpoonup> 'k JupyterKernel"
  kernel_locks :: "string \<rightharpoonup> bool"
  pool_lock :: bool


text \<open>
  \<^verbatim>\<open>get_kernel\<close> run with no other task in the pool (the interleaved runs are the subject
  of the next section): a lock that is held on entry is never released.
\<close>

definition get_kernel :: "'k jupyter \<Rightarrow> 'k KernelManager \<Rightarrow> string \<Rightarrow> ('k JupyterKernel, 'k KernelManager) outcome" where
  "get_kernel env self kid =
     (if pool_lock self then Hangs
      else
        (let self1 = (if kid \<notin> dom (kernel_locks self)
                      then self\<lparr>kernel_locks := (kernel_locks self)(kid \<mapsto> False)\<rparr>
                      else self)
         in if kernel_locks self1 kid = Some True then Hangs
            else case kernels self1 kid of
              Some kern \<Rightarrow> Returns kern self1
            | None \<Rightarrow>
                (case start env (JupyterKernel_init env) ''/workspace'' of
                   Raises e kern \<Rightarrow> Raises e self1
                 | Hangs \<Rightarrow> Hangs
                 | Returns u kern \<Rightarrow>
                     (case import_libraries env kern KERNEL_LIBRARIES of
                        Raises e kern1 \<Rightarrow> Raises e self1
                      | Hangs \<Rightarrow> Hangs
                      | Returns u kern1 \<Rightarrow>
                          Returns kern1 (self1\<lparr>kernels := (kernels self1)(kid \<mapsto> kern1)\<rparr>)))))"


subsection \<open>The endpoints\<close>

text \<open>
  \<^verbatim>\<open>execute_python_code\<close>. The kernel object is shared with the pool, so what the execution
  does to it is seen in \<^verbatim>\<open>kernel_manager.kernels\<close>.
\<close>

definition execute_python_code ::
  "'k jupyter \<Rightarrow> 'k KernelManager \<Rightarrow> ExecuteRequest \<Rightarrow> (ExecuteResponse, 'k KernelManager) outcome" where
  "execute_python_code env pool request =
     (case get_kernel env pool (kernel_id request) of
        Raises e pool1 \<Rightarrow> Raises e pool1
      | Hangs \<Rightarrow> Hangs
      | Returns kern pool1 \<Rightarrow>
          (case execute_raw env kern (code request) of
             Raises e kern1 \<Rightarrow>
               Raises e (pool1\<lparr>kernels := (kernels pool1)(kernel_id request \<mapsto> kern1)\<rparr>)
           | Hangs \<Rightarrow> Hangs
           | Returns msgs kern1 \<Rightarrow>
               Returns \<lparr>success = True, messages = msgs, error = None\<rparr>
                       (pool1\<lparr>kernels := (kernels pool1)(kernel_id request \<mapsto> kern1)\<rparr>)))"

definition execute_shell_code ::
  "'k jupyter \<Rightarrow> 'k KernelManager \<Rightarrow> ExecuteRequest \<Rightarrow> (ExecuteResponse, 'k KernelManager) outcome" where
  "execute_shell_code env pool request =
     (case get_kernel env pool (kernel_id request) of
        Raises e pool1 \<Rightarrow> Raises e pool1
      | Hangs \<Rightarrow> Hangs
      | Returns kern pool1 \<Rightarrow>
          (let stripped = strip (code request);
               jupyter_code = (if CHR 0x0A \<in> set stripped
                               then ''%%bash\<newline>'' @ stripped
                               else ''!'' @ stripped)
           in case execute_raw env kern jupyter_code of
                Raises e kern1 \<Rightarrow>
                  Raises e (pool1\<lparr>kernels := (kernels pool1)(kernel_id request \<mapsto> kern1)\<rparr>)
              | Hangs \<Rightarrow> Hangs
              | Returns msgs kern1 \<Rightarrow>
                  Returns \<lparr>success = True, messages = msgs, error = None\<rparr>
                          (pool1\<lparr>kernels := (kernels pool1)(kernel_id request \<mapsto> kern1)\<rparr>)))"

text \<open>
  \<^verbatim>\<open>except Exception\<close> catches every exception of the model but \<open>CancelledError\<close>.
  \<^verbatim>\<open>traceback.format_exc()\<close> is the header line of a Python traceback followed by the
  frames and the exception line, which are the parameter \<open>tb\<close>.
\<close>

fun is_Exception :: "py_error \<Rightarrow> bool" where
  "is_Exception CancelledError = False"
| "is_Exception _ = True"

definition format_exc :: "(py_error \<Rightarrow> string) \<Rightarrow> py_error \<Rightarrow> string" where
  "format_exc tb e = ''Traceback (most recent call last):\<newline>'' @ tb e"

definition execute_code_endpoint ::
  "'k jupyter \<Rightarrow> (py_error \<Rightarrow> string) \<Rightarrow> 'k KernelManager \<Rightarrow> ExecuteRequest \<Rightarrow>
   (ExecuteResponse, 'k KernelManager) outcome" where
  "execute_code_endpoint env tb pool request =
     (case (if language request = ''python'' then execute_python_code env pool request
            else if language request = ''bash'' then execute_shell_code env pool request
            else Raises (HTTPException 400 (''Unsupported language: '' @ language request)) pool)
      of Raises e pool1 \<Rightarrow>
           (if is_Exception e
            then Returns \<lparr>success = False, messages = [], error = Some (format_exc tb e)\<rparr> pool1
            else Raises e pool1)
       | r \<Rightarrow> r)"

text \<open>
  The status line FastAPI answers with: 200 for a returned response model, the status of
  a raised \<^verbatim>\<open>HTTPException\<close>, 500 for any other exception; none while the handler hangs.
\<close>

fun http_status :: "(ExecuteResponse, 'w) outcome \<Rightarrow> nat option" where
  "http_status (Returns r w) = Some 200"
| "http_status (Raises (HTTPException st detail) w) = Some st"
| "http_status (Raises e w) = Some 500"
| "http_status Hangs = None"


subsection \<open>A deterministic interpreter for the examples\<close>

text \<open>
  An interpreter that answers every piece of code with one \<^verbatim>\<open>stream\<close> message carrying the
  code it received, followed by the idle status; its state is the list of codes received.
\<close>

definition idle_status :: json where
  "idle_status = JObj [(''msg_type'', JStr ''status''),
                       (''content'', JObj [(''execution_state'', JStr ''idle'')])]"

definition echo_stream :: "string \<Rightarrow> json" where
  "echo_stream src = JObj [(''msg_type'', JStr ''stream''),
                           (''content'', JObj [(''name'', JStr ''stdout''), (''text'', JStr src)])]"

definition echo_jupyter :: "string list jupyter" where
  "echo_jupyter =
     \<lparr>new_manager = [],
      km_start_kernel = (\<lambda>k wd. Inr k),
      kc_wait_for_ready = (\<lambda>k. Inr []),
      kc_execute = (\<lambda>k src. (k @ [src], [Msg (echo_stream src), Msg idle_status])),
      km_shutdown_kernel = (\<lambda>k. Inr k)\<rparr>"

definition ready_kernel :: "string list JupyterKernel" where
  "ready_kernel = \<lparr>km = [], kc = Some \<lparr>channels_running = True, iopub = []\<rparr>, execution_lock = False\<rparr>"

definition one_session_pool :: "string list KernelManager" where
  "one_session_pool = \<lparr>kernels = [''s1'' \<mapsto> ready_kernel], kernel_locks = [''s1'' \<mapsto> False], pool_lock = False\<rparr>"


section \<open>Health polling (\<^verbatim>\<open>ContainerKernelClient.health_check\<close>)\<close>

text \<open>
  Time is what \<^verbatim>\<open>time.time()\<close> returns, in seconds, taken as a real number. The world of
  the poller: the reading of the clock on entry, the time spent before the first test of
  the loop, the answer to the \<open>i\<close>-th \<^verbatim>\<open>GET /health\<close> (a status, or the exception raised) with
  the time it takes, and the time the \<open>i\<close>-th \<^verbatim>\<open>await asyncio.sleep(d)\<close> really takes.
\<close>

record health_world =
  start_clock :: real
  setup_time :: real
  probe :: "nat \<Rightarrow> py_error + nat"
  probe_time :: "nat \<Rightarrow> real"
  sleep_time :: "real \<Rightarrow> nat \<Rightarrow> real"

text \<open>\<^verbatim>\<open>except (aiohttp.ClientError, asyncio.TimeoutError): pass\<close>.\<close>

fun passed_over :: "py_error \<Rightarrow> bool" where
  "passed_over (ClientError m) = True"
| "passed_over TimeoutError = True"
| "passed_over _ = False"

text \<open>
  The \<^verbatim>\<open>while\<close> loop, entered at time \<open>now\<close> for the \<open>i\<close>-th attempt. The result is the
  value returned or the exception raised, with the time of the last reading of the clock
  or of the end of the last probe. The loop need not terminate, hence the option.
\<close>

partial_function (option) poll ::
  "health_world \<Rightarrow> real \<Rightarrow> int \<Rightarrow> real \<Rightarrow> nat \<Rightarrow> ((py_error + bool) \<times> real) option" where
  "poll w start_time timeout now i =
     (if now - start_time < real_of_int timeout then
        (case probe w i of
           Inr st \<Rightarrow>
             if st = 200 then Some (Inr True, now + probe_time w i)
             else poll w start_time timeout (now + probe_time w i + sleep_time w 1 i) (i + 1)
         | Inl e \<Rightarrow>
             if passed_over e
             then poll w start_time timeout (now + probe_time w i + sleep_time w 1 i) (i + 1)
             else Some (Inl e, now + probe_time w i))
      else Some (Inr False, now))"

text \<open>\<^verbatim>\<open>health_check(self, timeout: int = 60)\<close>; \<open>None\<close> is the call without the argument.\<close>

definition health_check :: "health_world \<Rightarrow> int option \<Rightarrow> ((py_error + bool) \<times> real) option" where
  "health_check w timeout_arg =
     (let timeout = (case timeout_arg of None \<Rightarrow> 60 | Some t \<Rightarrow> t);
          start_time = start_clock w
      in poll w start_time timeout (start_time + setup_time w) 0)"

text \<open>
  The time at which the \<open>i\<close>-th attempt begins when every earlier attempt failed: each
  round is one probe followed by one sleep of one second.
\<close>

fun attempt_time :: "health_world \<Rightarrow> nat \<Rightarrow> real" where
  "attempt_time w 0 = start_clock w + setup_time w"
| "attempt_time w (Suc i) = attempt_time w i + probe_time w i + sleep_time w 1 i"

text \<open>A failed attempt: an answer other than 200, or an exception that the loop passes over.\<close>

definition failed_attempt :: "health_world \<Rightarrow> nat \<Rightarrow> bool" where
  "failed_attempt w i =
     (case probe w i of Inr st \<Rightarrow> st \<noteq> 200 | Inl e \<Rightarrow> passed_over e)"

text \<open>Two worlds for the examples: a service that refuses every connection, and one that
  answers 503 once and 200 afterwards; probes take no time and sleeps are exact.\<close>

definition refusing_world :: health_world where
  "refusing_world =
     \<lparr>start_clock = 100, setup_time = 0, probe = (\<lambda>i. Inl (ClientError ''refused'')),
      probe_time = (\<lambda>i. 0), sleep_time = (\<lambda>d i. d)\<rparr>"

definition warming_world :: health_world where
  "warming_world =
     \<lparr>start_clock = 100, setup_time = 0, probe = (\<lambda>i. if i = 0 then Inr 503 else Inr 200),
      probe_time = (\<lambda>i. 0), sleep_time = (\<lambda>d i. d)\<rparr>"


section \<open>Interleaved calls of \<^verbatim>\<open>KernelManager.get_kernel\<close>\<close>

text \<open>
  The service runs its coroutines on one asyncio event loop: a call runs until it has to
  wait. In the model a call of \<^verbatim>\<open>get_kernel\<close> can be suspended before each of its two
  \<^verbatim>\<open>async with\<close> statements, inside each of them, and in each \<^verbatim>\<open>await\<close>; any call that can go
  on may be the next to run. The runs of asyncio, which suspends a call in fewer places,
  are among the runs of the model. Objects are numbers: a \<^verbatim>\<open>Lock\<close> is the number of locks
  created before it, a \<^verbatim>\<open>JupyterKernel\<close> the number of kernels created before it.
\<close>

datatype call_pc =
    Enter
  | InPool
  | WaitLock nat
  | Holding nat
  | Starting nat nat
  | Importing nat nat
  | Returned nat
  | Raised py_error

text \<open>
  Where a call stands: \<open>Enter\<close> before \<^verbatim>\<open>async with self._lock\<close>; \<open>InPool\<close> holding that
  lock; \<open>WaitLock l\<close> with the local \<^verbatim>\<open>lock\<close> bound to \<open>l\<close>, before \<^verbatim>\<open>async with lock\<close>;
  \<open>Holding l\<close> holding it, before the test of \<^verbatim>\<open>self.kernels\<close>; \<open>Starting l kern\<close> in
  \<^verbatim>\<open>await kernel.start()\<close> of the kernel just constructed; \<open>Importing l kern\<close> in
  \<^verbatim>\<open>await kernel.import_libraries(...)\<close>; \<open>Returned kern\<close> and \<open>Raised e\<close> when it is over.
\<close>

record call =
  call_id :: string
  pc :: call_pc

record pool_state =
  p_kernels :: "string \<rightharpoonup> nat"
  p_kernel_locks :: "string \<rightharpoonup> nat"
  p_lock_held :: bool
  held :: "nat set"
  n_locks :: nat
  n_kernels :: nat
  constructed :: "(string \<times> nat) list"
  calls :: "call list"


definition set_pc :: "nat \<Rightarrow> call_pc \<Rightarrow> pool_state \<Rightarrow> pool_state" where
  "set_pc i p s = s\<lparr>calls := (calls s)[i := (calls s ! i)\<lparr>pc := p\<rparr>]\<rparr>"



text \<open>The kernels constructed for an identifier, in order of construction.\<close>

definition constructed_for :: "string \<Rightarrow> pool_state \<Rightarrow> nat list" where
  "constructed_for kid s = map snd (filter (\<lambda>c. fst c = kid) (constructed s))"







subsection \<open>What holds in every state of a run\<close>

definition pc_at :: "pool_state \<Rightarrow> nat \<Rightarrow> call_pc" where
  "pc_at s i = pc (calls s ! i)"

definition id_at :: "pool_state \<Rightarrow> nat \<Rightarrow> string" where
  "id_at s i = call_id (calls s ! i)"



fun creating :: "call_pc \<Rightarrow> nat option" where
  "creating (Starting l kern) = Some kern"
| "creating (Importing l kern) = Some kern"
| "creating _ = None"






text \<open>
  For one identifier: while it has no session, the kernels constructed for it are those
  being brought up right now; once it has a session, that session is the only kernel ever
  constructed for it; and a call for it that has a kernel in hand has that very kernel.
\<close>

definition bringing_up :: "string \<Rightarrow> call \<Rightarrow> bool" where
  "bringing_up kid c \<longleftrightarrow> call_id c = kid \<and> creating (pc c) \<noteq> None"



text \<open>The number of steps a call has left at most.\<close>

fun steps_left :: "call_pc \<Rightarrow> nat" where
  "steps_left Enter = 6"
| "steps_left InPool = 5"
| "steps_left (WaitLock l) = 4"
| "steps_left (Holding l) = 3"
| "steps_left (Starting l kern) = 2"
| "steps_left (Importing l kern) = 1"
| "steps_left (Returned kern) = 0"
| "steps_left (Raised e) = 0"

definition total_left :: "pool_state \<Rightarrow> nat" where
  "total_left s = sum_list (map (\<lambda>c. steps_left (pc c)) (calls s))"


section \<open>Interleaved calls of \<^verbatim>\<open>JupyterKernel.execute_raw\<close> on one session\<close>

text \<open>
  Several calls of \<^verbatim>\<open>execute_raw\<close> on the same \<^verbatim>\<open>JupyterKernel\<close>, on one event loop. A call
  can be suspended before \<^verbatim>\<open>async with self._execution_lock\<close>, after it has the lock, and
  in each \<^verbatim>\<open>await self.kc.get_iopub_msg()\<close>. The interpreter publishes its messages on the
  iopub channel whenever it likes, and a call can be cancelled while it awaits. The calls
  of the client library themselves (\<^verbatim>\<open>kc.execute\<close>, \<^verbatim>\<open>kc.get_iopub_msg\<close>) are taken to
  return; every caller iterates the generator to its end, as the callers in the service do.
\<close>

datatype exec_pc = Queued | Acquired | Reading | Over

record execution =
  exec_code :: string
  exec_pc :: exec_pc

text \<open>
  What is seen from outside, in order: the code handed to the interpreter
  (\<^verbatim>\<open>self.kc.execute(code)\<close>), each message a call yields, and the end of a call that had
  sent its code: on the idle status, by cancellation, or by an exception.
\<close>

datatype ending = Idle | Cancelled | Failed py_error

datatype event = Sent nat string | Got nat json | Ended nat ending

record session_state =
  execution_lock_held :: bool
  iopub_channel :: "json list"
  executions :: "execution list"
  history :: "event list"

definition set_exec_pc :: "nat \<Rightarrow> exec_pc \<Rightarrow> session_state \<Rightarrow> session_state" where
  "set_exec_pc i p s = s\<lparr>executions := (executions s)[i := (executions s ! i)\<lparr>exec_pc := p\<rparr>]\<rparr>"

text \<open>
  The next step of call \<open>i\<close>; \<open>None\<close> when it waits (for the lock, or for a message on an
  empty channel) or is over. In the loop, \<^verbatim>\<open>reply.get("msg_type")\<close> comes before the
  \<^verbatim>\<open>yield\<close> and the test for the idle status after it; an exception in either leaves the
  \<^verbatim>\<open>async with\<close> block, which releases the lock.
\<close>

definition step_call :: "nat \<Rightarrow> session_state \<Rightarrow> session_state option" where
  "step_call i s =
     (if length (executions s) \<le> i then None
      else case exec_pc (executions s ! i) of
        Queued \<Rightarrow>
          if execution_lock_held s then None
          else Some (set_exec_pc i Acquired (s\<lparr>execution_lock_held := True\<rparr>))
      | Acquired \<Rightarrow>
          Some (set_exec_pc i Reading
                 (s\<lparr>history := history s @ [Sent i (exec_code (executions s ! i))]\<rparr>))
      | Reading \<Rightarrow>
          (case iopub_channel s of
             [] \<Rightarrow> None
           | reply # rest \<Rightarrow>
               (case py_get reply ''msg_type'' JNull of
                  Inl e \<Rightarrow>
                    Some (set_exec_pc i Over
                           (s\<lparr>execution_lock_held := False, iopub_channel := rest,
                              history := history s @ [Ended i (Failed e)]\<rparr>))
                | Inr msg_type \<Rightarrow>
                    (case is_idle msg_type reply of
                       Inl e \<Rightarrow>
                         Some (set_exec_pc i Over
                                (s\<lparr>execution_lock_held := False, iopub_channel := rest,
                                   history := history s @ [Got i reply, Ended i (Failed e)]\<rparr>))
                     | Inr True \<Rightarrow>
                         Some (set_exec_pc i Over
                                (s\<lparr>execution_lock_held := False, iopub_channel := rest,
                                   history := history s @ [Got i reply, Ended i Idle]\<rparr>))
                     | Inr False \<Rightarrow>
                         Some (s\<lparr>iopub_channel := rest,
                                 history := history s @ [Got i reply]\<rparr>))))
      | Over \<Rightarrow> None)"

text \<open>
  Cancellation of call \<open>i\<close>, delivered where it awaits: waiting for the lock, the
  \<open>CancelledError\<close> leaves the call before it has the lock; in \<^verbatim>\<open>get_iopub_msg\<close> it is caught by
  \<^verbatim>\<open>except asyncio.CancelledError\<close> and the lock is released on the way out.
\<close>

definition cancel_call :: "nat \<Rightarrow> session_state \<Rightarrow> session_state option" where
  "cancel_call i s =
     (if length (executions s) \<le> i then None
      else case exec_pc (executions s ! i) of
        Queued \<Rightarrow> Some (set_exec_pc i Over s)
      | Reading \<Rightarrow>
          Some (set_exec_pc i Over
                 (s\<lparr>execution_lock_held := False, history := history s @ [Ended i Cancelled]\<rparr>))
      | Acquired \<Rightarrow> None
      | Over \<Rightarrow> None)"

datatype action = Step nat | Publish json | Cancel nat

fun act :: "action \<Rightarrow> session_state \<Rightarrow> session_state option" where
  "act (Step i) s = step_call i s"
| "act (Publish m) s = Some (s\<lparr>iopub_channel := iopub_channel s @ [m]\<rparr>)"
| "act (Cancel i) s = cancel_call i s"

fun run_session :: "action list \<Rightarrow> session_state \<Rightarrow> session_state option" where
  "run_session [] s = Some s"
| "run_session (a # sched) s =
     (case act a s of None \<Rightarrow> None | Some s1 \<Rightarrow> run_session sched s1)"

fun published :: "action list \<Rightarrow> json list" where
  "published [] = []"
| "published (Publish m # sched) = m # published sched"
| "published (a # sched) = published sched"

subsection \<open>Serialized histories\<close>

text \<open>
  The serialization guarantee of the specification, as a reading of the history from left
  to right: code is sent only while no execution is in flight; a message is yielded only
  to the execution in flight, and none after its idle status; an execution ends on the
  idle status it has just yielded, or is cancelled before that, or fails.
\<close>

datatype flight = Nobody | Flying nat bool

definition idle_reply :: "json \<Rightarrow> bool" where
  "idle_reply reply =
     (case py_get reply ''msg_type'' JNull of
        Inl e \<Rightarrow> False
      | Inr msg_type \<Rightarrow> is_idle msg_type reply = Inr True)"

fun flight_after :: "flight \<Rightarrow> event list \<Rightarrow> flight option" where
  "flight_after f [] = Some f"
| "flight_after f (Sent i src # es) =
     (if f = Nobody then flight_after (Flying i False) es else None)"
| "flight_after f (Got i reply # es) =
     (if f = Flying i False then flight_after (Flying i (idle_reply reply)) es else None)"
| "flight_after f (Ended i Idle # es) =
     (if f = Flying i True then flight_after Nobody es else None)"
| "flight_after f (Ended i Cancelled # es) =
     (if f = Flying i False then flight_after Nobody es else None)"
| "flight_after f (Ended i (Failed e) # es) =
     (if f = Flying i False \<or> f = Flying i True then flight_after Nobody es else None)"

definition serialized :: "event list \<Rightarrow> bool" where
  "serialized es \<longleftrightarrow> flight_after Nobody es \<noteq> None"

fun is_failure :: "event \<Rightarrow> bool" where
  "is_failure (Ended i (Failed e)) = True"
| "is_failure _ = False"

text \<open>A message on which neither \<^verbatim>\<open>reply.get("msg_type")\<close> nor the idle test raises.\<close>

definition well_formed :: "json \<Rightarrow> bool" where
  "well_formed reply =
     (case py_get reply ''msg_type'' JNull of
        Inl e \<Rightarrow> False
      | Inr msg_type \<Rightarrow> (case is_idle msg_type reply of Inl e \<Rightarrow> False | Inr b \<Rightarrow> True))"

text \<open>Without a malformed message no execution fails.\<close>

definition no_failure :: "session_state \<Rightarrow> bool" where
  "no_failure s \<longleftrightarrow>
     list_all well_formed (iopub_channel s) \<and> \<not> list_ex is_failure (history s)"

text \<open>An execution that has the lock.\<close>

definition in_flight :: "execution \<Rightarrow> bool" where
  "in_flight x \<longleftrightarrow> exec_pc x = Acquired \<or> exec_pc x = Reading"

definition reading :: "execution \<Rightarrow> bool" where
  "reading x \<longleftrightarrow> exec_pc x = Reading"

text \<open>The session before any of the calls has run.\<close>

definition fresh :: "session_state \<Rightarrow> bool" where
  "fresh s \<longleftrightarrow>
     (\<forall>x \<in> set (executions s). exec_pc x = Queued) \<and> \<not> execution_lock_held s \<and> history s = []"

text \<open>What holds in every state of a run.\<close>

definition session_inv :: "session_state \<Rightarrow> bool" where
  "session_inv s \<longleftrightarrow>
     length (filter in_flight (executions s)) = (if execution_lock_held s then 1 else 0) \<and>
     (case flight_after Nobody (history s) of
        None \<Rightarrow> False
      | Some Nobody \<Rightarrow> filter reading (executions s) = []
      | Some (Flying i b) \<Rightarrow>
          \<not> b \<and> i < length (executions s) \<and> exec_pc (executions s ! i) = Reading)"

text \<open>
  For the examples: two calls on a session, and the status, stream and idle messages of
  an interpreter.
\<close>

definition busy_status :: json where
  "busy_status = JObj [(''msg_type'', JStr ''status''),
                       (''content'', JObj [(''execution_state'', JStr ''busy'')])]"

definition two_executions :: session_state where
  "two_executions =
     \<lparr>execution_lock_held = False, iopub_channel = [],
      executions = [\<lparr>exec_code = ''x = 1'', exec_pc = Queued\<rparr>,
                    \<lparr>exec_code = ''print(x)'', exec_pc = Queued\<rparr>],
      history = []\<rparr>"

definition two_executions_schedule :: "action list" where
  "two_executions_schedule =
     [Step 0, Step 0, Publish busy_status, Step 0, Publish idle_status, Step 0,
      Step (Suc 0), Step (Suc 0), Publish busy_status, Publish (echo_stream ''1''),
      Step (Suc 0), Step (Suc 0), Publish idle_status, Step (Suc 0)]"

definition two_executions_history :: "event list" where
  "two_executions_history =
     [Sent 0 ''x = 1'', Got 0 busy_status, Got 0 idle_status, Ended 0 Idle,
      Sent (Suc 0) ''print(x)'', Got (Suc 0) busy_status, Got (Suc 0) (echo_stream ''1''),
      Got (Suc 0) idle_status, Ended (Suc 0) Idle]"


lemma find_filter_append:
  "find (\<lambda>k. k \<in> set ks) (filter P ks @ xs) =
     (case filter P ks of [] \<Rightarrow> find (\<lambda>k. k \<in> set ks) xs | k # _ \<Rightarrow> Some k)"
proof (cases "filter P ks")
  case Nil
  then show ?thesis by simp
next
  case (Cons k rest)
  then have "k \<in> set (filter P ks)" by simp
  then have "k \<in> set ks" by simp
  with Cons show ?thesis by simp
qed

lemma list_ex_filter: "list_ex P ks \<longleftrightarrow> filter P ks \<noteq> []"
  by (induction ks) auto

lemma map_of_key: "k \<in> set (map fst d) \<Longrightarrow> \<exists>v. map_of d k = Some v"
  by (metis map_of_eq_None_iff not_Some_eq set_map)

lemma map_of_nokey: "k \<notin> set (map fst d) \<Longrightarrow> map_of d k = None"
  by (simp add: map_of_eq_None_iff)

lemma image_not_json: "sublist ''image'' mt \<Longrightarrow> mt \<noteq> ''application/json''"
  by (auto simp: sublist_code)

text \<open>
  Claim C3. For a \<^verbatim>\<open>display_data\<close> or \<^verbatim>\<open>execute_result\<close> message whose content carries the
  representations \<open>d\<close>, the translator chooses as the priority table says: the first offered
  mime type containing \<^verbatim>\<open>image\<close>, else \<^verbatim>\<open>text/markdown\<close>, else \<^verbatim>\<open>text/html\<close>, else
  \<^verbatim>\<open>application/json\<close> (its value passed through \<^verbatim>\<open>json.dumps\<close>), else \<^verbatim>\<open>text/plain\<close>. The
  chosen representation becomes exactly one output that is not an error; its content is
  the value offered, which the output model requires to be a string. When the table
  offers nothing, the lookup of \<^verbatim>\<open>text/plain\<close> raises.
\<close>

theorem mime_priority:
  assumes "map_of fs ''msg_type'' = Some (JStr kind)"
    and "kind = ''display_data'' \<or> kind = ''execute_result''"
    and "map_of fs ''content'' = Some (JObj c)"
    and "map_of c ''data'' = Some (JObj d)"
  shows "process_message dumps (JObj fs) =
     (case select_representation d of
        None \<Rightarrow> Inl (KeyError ''text/plain'')
      | Some (mt, v) \<Rightarrow>
          if mt = ''application/json''
          then Inr [\<lparr>mime_type = mt, content = dumps v, is_error = False\<rparr>]
          else (case v of
                  JStr s \<Rightarrow> Inr [\<lparr>mime_type = mt, content = s, is_error = False\<rparr>]
                | _ \<Rightarrow> Inl ValidationError))"
proof -
  let ?keys = "map fst d"
  have pm: "process_message dumps (JObj fs) =
      (if list_ex (sublist ''image'') ?keys then
             (case filter (sublist ''image'') ?keys of
                [] \<Rightarrow> Inl IndexError
              | mt # _ \<Rightarrow>
                  py_bind (subscript (JObj d) mt) (\<lambda>v.
                    append_output (kernel_output mt v False)))
           else if ''text/markdown'' \<in> set ?keys then
             py_bind (subscript (JObj d) ''text/markdown'') (\<lambda>v.
               append_output (kernel_output ''text/markdown'' v False))
           else if ''text/html'' \<in> set ?keys then
             py_bind (subscript (JObj d) ''text/html'') (\<lambda>v.
               append_output (kernel_output ''text/html'' v False))
           else if ''application/json'' \<in> set ?keys then
             py_bind (subscript (JObj d) ''application/json'') (\<lambda>v.
               append_output (kernel_output ''application/json'' (JStr (dumps v)) False))
           else
             py_bind (subscript (JObj d) ''text/plain'') (\<lambda>v.
               append_output (kernel_output ''text/plain'' v False)))"
  proof -
    from assms(2) have k: "JStr kind \<noteq> JStr ''stream''"
      "JStr kind = JStr ''display_data'' \<or> JStr kind = JStr ''execute_result''" by auto
    show ?thesis
      unfolding process_message_def
      by (simp only: py_get.simps assms(1,3,4) option.case py_bind_def sum.case k if_True if_False
                  subscript.simps py_keys.simps)
  qed
  show ?thesis
  proof (cases "filter (sublist ''image'') ?keys")
    case (Cons mt rest)
    then have "mt \<in> set (filter (sublist ''image'') ?keys)" by simp
    then have mt: "mt \<in> set ?keys" "sublist ''image'' mt" by simp_all
    from map_of_key[OF mt(1)] obtain v where v: "map_of d mt = Some v" ..
    have nj: "mt \<noteq> ''application/json''" by (rule image_not_json[OF mt(2)])
    have sel: "select_representation d = Some (mt, v)"
      unfolding select_representation_def mime_candidates_def find_filter_append
      by (simp only: Cons list.case option.case v option.map)
    show ?thesis
    proof -
      have ex: "list_ex (sublist ''image'') ?keys" by (simp only: list_ex_filter Cons) simp
      show ?thesis
        unfolding pm sel
        by (cases v) (simp_all only: ex if_True Cons list.case subscript.simps v option.case
              py_bind_def sum.case kernel_output.simps append_output_def nj if_False
              prod.case json.case)
    qed
  next
    case Nil
    have ex: "\<not> list_ex (sublist ''image'') ?keys" by (simp only: list_ex_filter Nil)
    have cand: "find (\<lambda>mt. mt \<in> set ?keys) (mime_candidates ?keys) =
        (if ''text/markdown'' \<in> set ?keys then Some ''text/markdown''
         else if ''text/html'' \<in> set ?keys then Some ''text/html''
         else if ''application/json'' \<in> set ?keys then Some ''application/json''
         else if ''text/plain'' \<in> set ?keys then Some ''text/plain'' else None)"
      unfolding mime_candidates_def Nil by (simp only: append_Nil find.simps)
    have none: "select_representation d = None" if "find (\<lambda>mt. mt \<in> set ?keys) (mime_candidates ?keys) = None"
      using that by (simp only: select_representation_def option.case)
    have some: "select_representation d = Some (k, v)"
      if "find (\<lambda>mt. mt \<in> set ?keys) (mime_candidates ?keys) = Some k" "map_of d k = Some v" for k v
      using that by (simp only: select_representation_def option.case option.map)
    consider (md) "''text/markdown'' \<in> set ?keys"
      | (html) "''text/markdown'' \<notin> set ?keys" "''text/html'' \<in> set ?keys"
      | (json) "''text/markdown'' \<notin> set ?keys" "''text/html'' \<notin> set ?keys"
               "''application/json'' \<in> set ?keys"
      | (plain) "''text/markdown'' \<notin> set ?keys" "''text/html'' \<notin> set ?keys"
               "''application/json'' \<notin> set ?keys" "''text/plain'' \<in> set ?keys"
      | (absent) "''text/markdown'' \<notin> set ?keys" "''text/html'' \<notin> set ?keys"
               "''application/json'' \<notin> set ?keys" "''text/plain'' \<notin> set ?keys"
      by argo
    then show ?thesis
    proof cases
      case md
      from map_of_key[OF md] obtain v where v: "map_of d ''text/markdown'' = Some v" ..
      have sel: "select_representation d = Some (''text/markdown'', v)"
        by (rule some[OF _ v]) (simp only: cand md if_True)
      have ne: "''text/markdown'' \<noteq> ''application/json''" by simp
      show ?thesis unfolding pm sel
        by (cases v) (simp_all only: ex md if_True if_False subscript.simps v option.case
              py_bind_def sum.case kernel_output.simps append_output_def ne prod.case json.case)
    next
      case html
      from map_of_key[OF html(2)] obtain v where v: "map_of d ''text/html'' = Some v" ..
      have sel: "select_representation d = Some (''text/html'', v)"
        by (rule some[OF _ v]) (simp only: cand html if_True if_False)
      have ne: "''text/html'' \<noteq> ''application/json''" by simp
      show ?thesis unfolding pm sel
        by (cases v) (simp_all only: ex html if_True if_False subscript.simps v option.case
              py_bind_def sum.case kernel_output.simps append_output_def ne prod.case json.case)
    next
      case json
      from map_of_key[OF json(3)] obtain v where v: "map_of d ''application/json'' = Some v" ..
      have sel: "select_representation d = Some (''application/json'', v)"
        by (rule some[OF _ v]) (simp only: cand json if_True if_False)
      show ?thesis unfolding pm sel
        by (simp only: ex json if_True if_False subscript.simps v option.case
              py_bind_def sum.case kernel_output.simps append_output_def prod.case json.case
              refl simp_thms)
    next
      case plain
      from map_of_key[OF plain(4)] obtain v where v: "map_of d ''text/plain'' = Some v" ..
      have sel: "select_representation d = Some (''text/plain'', v)"
        by (rule some[OF _ v]) (simp only: cand plain if_True if_False)
      have ne: "''text/plain'' \<noteq> ''application/json''" by simp
      show ?thesis unfolding pm sel
        by (cases v) (simp_all only: ex plain if_True if_False subscript.simps v option.case
              py_bind_def sum.case kernel_output.simps append_output_def ne prod.case json.case)
    next
      case absent
      have sel: "select_representation d = None"
        by (rule none) (simp only: cand absent if_False simp_thms)
      show ?thesis unfolding pm sel
        by (simp only: ex absent if_False subscript.simps map_of_nokey[OF absent(4)] option.case
              py_bind_def sum.case simp_thms)
    qed
  qed
qed


text \<open>
  The example of the specification: an event offering \<^verbatim>\<open>{"text/plain": "x", "image/png": "y"}\<close>
  gives the single output \<^verbatim>\<open>image/png\<close> with content \<^verbatim>\<open>y\<close>.
\<close>

theorem mime_priority_witness:
  "map_of [(''msg_type'', JStr ''display_data''),
           (''content'', JObj [(''data'', JObj [(''text/plain'', JStr ''x''), (''image/png'', JStr ''y'')])])]
          ''msg_type'' = Some (JStr ''display_data'')
   \<and> process_message (\<lambda>v. [])
         (JObj [(''msg_type'', JStr ''display_data''),
                (''content'', JObj [(''data'', JObj [(''text/plain'', JStr ''x''), (''image/png'', JStr ''y'')])])])
       = Inr [\<lparr>mime_type = ''image/png'', content = ''y'', is_error = False\<rparr>]"
  using mime_priority [of "[(''msg_type'', JStr ''display_data''),
           (''content'', JObj [(''data'', JObj [(''text/plain'', JStr ''x''), (''image/png'', JStr ''y'')])])]"
        "''display_data''" "[(''data'', JObj [(''text/plain'', JStr ''x''), (''image/png'', JStr ''y'')])]"
        "[(''text/plain'', JStr ''x''), (''image/png'', JStr ''y'')]" "\<lambda>v. []"]
  by (simp add: select_representation_def mime_candidates_def sublist_code)

text \<open>
  Claim C4. Selection is not total: a \<^verbatim>\<open>display_data\<close> message that offers only
  \<^verbatim>\<open>application/pdf\<close> emits no output; the translator raises \<^verbatim>\<open>KeyError('text/plain')\<close>.
\<close>

theorem missing_text_plain_raises:
  "process_message (\<lambda>v. [])
     (JObj [(''msg_type'', JStr ''display_data''),
            (''content'', JObj [(''data'', JObj [(''application/pdf'', JStr ''JVBERi0='')]),
                                (''metadata'', JObj [])])])
   = Inl (KeyError ''text/plain'')"
  by (simp add: process_message_def py_bind_def sublist_code)

lemma on_client_error_Inr: "on_client_error r = Inr v \<longleftrightarrow> r = Inr v"
  by (cases r rule: on_client_error.cases) simp_all

lemma sublist_after_prefix: "sublist e (p @ e)"
  unfolding sublist_def by (rule exI[of _ p], rule exI[of _ "[]"]) simp

lemma is_client_error_simps [simp]:
  "is_client_error (Inr v) = False"
  "is_client_error (Inl e) = (\<exists>s. e = ClientError s)"
  by (simp_all add: is_client_error_def)

lemma nce_bind: "\<not> is_client_error r \<Longrightarrow> (\<And>v. \<not> is_client_error (f v)) \<Longrightarrow> \<not> is_client_error (py_bind r f)"
  by (cases r) (simp_all add: py_bind_def)

lemma nce_subscript: "\<not> is_client_error (subscript v k)"
  by (cases v) (simp_all split: option.splits)

lemma nce_py_get: "\<not> is_client_error (py_get v k d)"
  by (cases v) (simp_all split: option.splits)

lemma nce_py_keys: "\<not> is_client_error (py_keys v)"
  by (cases v) simp_all

lemma nce_py_iter: "\<not> is_client_error (py_iter v)"
  by (cases v) simp_all

lemma nce_as_strings: "\<not> is_client_error (as_strings vs)"
  by (induction vs rule: as_strings.induct) (simp_all add: nce_bind)

lemma nce_py_join: "\<not> is_client_error (py_join sep v)"
  unfolding py_join_def by (intro nce_bind nce_py_iter nce_as_strings) simp

lemma nce_kernel_output: "\<not> is_client_error (kernel_output mt v e)"
  by (cases v) simp_all

lemma nce_append_output: "\<not> is_client_error r \<Longrightarrow> \<not> is_client_error (append_output r)"
  unfolding append_output_def by (rule nce_bind) simp_all

lemmas nce_intros = nce_bind nce_subscript nce_py_get nce_py_keys nce_py_iter nce_py_join
  nce_append_output nce_kernel_output

lemma nce_process_message: "\<not> is_client_error (process_message dumps m)"
  unfolding process_message_def
  by (intro nce_intros) (simp_all add: nce_intros split: list.splits)

lemma nce_process_loop: "\<not> is_client_error (process_loop dumps ms acc)"
proof (induction ms arbitrary: acc)
  case Nil
  show ?case by simp
next
  case (Cons m ms)
  show ?case
  proof (cases "process_message dumps m")
    case (Inl e)
    with nce_process_message[of dumps m] show ?thesis by simp
  next
    case (Inr outs)
    with Cons show ?thesis by simp
  qed
qed

lemma nce_process_messages: "\<not> is_client_error (process_messages dumps v)"
  unfolding process_messages_def by (intro nce_bind nce_py_iter nce_process_loop)

lemma on_client_error_id: "\<not> is_client_error r \<Longrightarrow> on_client_error r = r"
  by (cases r rule: on_client_error.cases) simp_all

lemma execute_code_answered:
  assumes "post (base_url @ ''/execute'')
             (JObj [(''kernel_id'', JStr kid), (''code'', JStr src), (''language'', JStr lang)])
           = Inr response"
    and "status response = 200"
    and "json_body response = Inr (JObj r)"
  shows "execute_code dumps py_repr post base_url kid src lang =
      on_client_error
        (py_bind (subscript (JObj r) ''success'') (\<lambda>ok.
           if \<not> truthy ok then
             py_bind (py_get (JObj r) ''error'' (JStr ''Unknown error'')) (\<lambda>err.
               Inl (Exception (''Execution failed: '' @ py_format py_repr err)))
           else
             py_bind (subscript (JObj r) ''messages'') (process_messages dumps)))"
  unfolding execute_code_def Let_def
  by (simp only: assms py_bind_def sum.case simp_thms if_False)

lemma execute_code_success:
  assumes "post (base_url @ ''/execute'')
             (JObj [(''kernel_id'', JStr kid), (''code'', JStr src), (''language'', JStr lang)])
           = Inr response"
    and "status response = 200"
    and "json_body response = Inr (JObj r)"
    and "map_of r ''success'' = Some (JBool True)" and "map_of r ''messages'' = Some msgs"
  shows "execute_code dumps py_repr post base_url kid src lang = process_messages dumps msgs"
  unfolding execute_code_answered[where post = post and base_url = base_url and kid = kid and src = src and lang = lang and response = response and r = r, OF assms(1,2,3)]
  using assms(4,5) on_client_error_id[OF nce_process_messages[of dumps msgs]]
  by (simp add: py_bind_def)

lemma as_strings_map_JStr: "as_strings (map JStr ls) = Inr ls"
  by (induction ls) (simp_all add: py_bind_def)

text \<open>
  Claim C5. An \<^verbatim>\<open>error\<close> message with traceback lines \<open>ls\<close> gives exactly one output:
  \<^verbatim>\<open>text/plain\<close>, the lines joined by newlines in their order, flagged as an error. Nothing
  is raised: the loop of the translator goes on with the next message, and a successful
  answer of the environment that carries this message makes \<open>execute_code\<close> return the
  output.
\<close>

theorem error_event_output:
  assumes "map_of fs ''msg_type'' = Some (JStr ''error'')"
    and "map_of fs ''content'' = Some (JObj c)"
    and "map_of c ''traceback'' = Some (JArr (map JStr ls))"
  shows "process_message dumps (JObj fs) =
           Inr [\<lparr>mime_type = ''text/plain'', content = join ''\<newline>'' ls, is_error = True\<rparr>]
       \<and> process_loop dumps (JObj fs # rest) results =
           process_loop dumps rest
             (results @ [\<lparr>mime_type = ''text/plain'', content = join ''\<newline>'' ls, is_error = True\<rparr>])
       \<and> (post (base_url @ ''/execute'')
             (JObj [(''kernel_id'', JStr kid), (''code'', JStr src), (''language'', JStr lang)])
             = Inr response \<longrightarrow>
          status response = 200 \<longrightarrow> json_body response = Inr (JObj r) \<longrightarrow>
          map_of r ''success'' = Some (JBool True) \<longrightarrow>
          map_of r ''messages'' = Some (JArr [JObj fs]) \<longrightarrow>
          execute_code dumps py_repr post base_url kid src lang =
            Inr [\<lparr>mime_type = ''text/plain'', content = join ''\<newline>'' ls, is_error = True\<rparr>])"
proof -
  have pm: "process_message dumps (JObj fs) =
           Inr [\<lparr>mime_type = ''text/plain'', content = join ''\<newline>'' ls, is_error = True\<rparr>]"
    unfolding process_message_def
    by (simp add: assms py_bind_def py_join_def as_strings_map_JStr append_output_def)
  then have pl: "process_loop dumps (JObj fs # rest) results =
           process_loop dumps rest
             (results @ [\<lparr>mime_type = ''text/plain'', content = join ''\<newline>'' ls, is_error = True\<rparr>])"
    by simp
  from pm have all: "process_messages dumps (JArr [JObj fs]) =
           Inr [\<lparr>mime_type = ''text/plain'', content = join ''\<newline>'' ls, is_error = True\<rparr>]"
    by (simp add: process_messages_def py_bind_def)
  have relay: "execute_code dumps py_repr post base_url kid src lang =
            Inr [\<lparr>mime_type = ''text/plain'', content = join ''\<newline>'' ls, is_error = True\<rparr>]"
    if "post (base_url @ ''/execute'')
             (JObj [(''kernel_id'', JStr kid), (''code'', JStr src), (''language'', JStr lang)])
             = Inr response"
       "status response = 200" "json_body response = Inr (JObj r)"
       "map_of r ''success'' = Some (JBool True)" "map_of r ''messages'' = Some (JArr [JObj fs])"
    using execute_code_success[where post = post and base_url = base_url and kid = kid and src = src and lang = lang and response = response and r = r, OF that] all by simp
  from pm pl relay show ?thesis by (intro conjI impI)
qed

text \<open>
  The example of the specification: traceback lines \<^verbatim>\<open>["a", "b"]\<close> give the content \<^verbatim>\<open>a\nb\<close>.
\<close>

theorem error_event_output_witness:
  "map_of [(''msg_type'', JStr ''error''),
           (''content'', JObj [(''ename'', JStr ''E''), (''traceback'', JArr [JStr ''a'', JStr ''b''])])]
      ''msg_type'' = Some (JStr ''error'')
   \<and> process_message (\<lambda>v. [])
        (JObj [(''msg_type'', JStr ''error''),
               (''content'', JObj [(''ename'', JStr ''E''), (''traceback'', JArr [JStr ''a'', JStr ''b''])])])
      = Inr [\<lparr>mime_type = ''text/plain'', content = ''a\<newline>b'', is_error = True\<rparr>]
   \<and> execute_code (\<lambda>v. []) (\<lambda>v. [])
        (\<lambda>url payload. Inr \<lparr>status = 200, text_body = [],
           json_body = Inr (JObj [(''success'', JBool True),
             (''messages'', JArr [JObj [(''msg_type'', JStr ''error''),
               (''content'', JObj [(''ename'', JStr ''E''),
                                   (''traceback'', JArr [JStr ''a'', JStr ''b''])])]])])\<rparr>)
        ''http://localhost:8060'' ''s1'' ''1/0'' ''python''
      = Inr [\<lparr>mime_type = ''text/plain'', content = ''a\<newline>b'', is_error = True\<rparr>]"
  using error_event_output
    [where fs = "[(''msg_type'', JStr ''error''),
           (''content'', JObj [(''ename'', JStr ''E''), (''traceback'', JArr [JStr ''a'', JStr ''b''])])]"
       and c = "[(''ename'', JStr ''E''), (''traceback'', JArr [JStr ''a'', JStr ''b''])]"
       and ls = "[''a'', ''b'']" and dumps = "\<lambda>v. []" and py_repr = "\<lambda>v. []"
       and rest = "[]" and results = "[]"
       and post = "\<lambda>url payload. Inr \<lparr>status = 200, text_body = [],
           json_body = Inr (JObj [(''success'', JBool True),
             (''messages'', JArr [JObj [(''msg_type'', JStr ''error''),
               (''content'', JObj [(''ename'', JStr ''E''),
                                   (''traceback'', JArr [JStr ''a'', JStr ''b''])])]])])\<rparr>"
       and response = "\<lparr>status = 200, text_body = [],
           json_body = Inr (JObj [(''success'', JBool True),
             (''messages'', JArr [JObj [(''msg_type'', JStr ''error''),
               (''content'', JObj [(''ename'', JStr ''E''),
                                   (''traceback'', JArr [JStr ''a'', JStr ''b''])])]])])\<rparr>"
       and r = "[(''success'', JBool True),
             (''messages'', JArr [JObj [(''msg_type'', JStr ''error''),
               (''content'', JObj [(''ename'', JStr ''E''),
                                   (''traceback'', JArr [JStr ''a'', JStr ''b''])])]])]"
       and base_url = "''http://localhost:8060''" and kid = "''s1''" and src = "''1/0''"
       and lang = "''python''"]
  by simp

text \<open>
  Claim C6. The environment has answered with status 200 and a JSON object \<open>r\<close>. If \<open>r\<close>
  says \<^verbatim>\<open>success: false\<close> with the error text \<open>err\<close>, \<open>execute_code\<close> raises an exception
  whose message ends with \<open>err\<close> unchanged. If it says \<^verbatim>\<open>success: true\<close>, the result is the
  translator's result on the messages. And whenever \<open>execute_code\<close> returns outputs, the
  answer was a success and the outputs are the translator's.
\<close>

theorem relay_failure_and_success:
  assumes "post (base_url @ ''/execute'')
             (JObj [(''kernel_id'', JStr kid), (''code'', JStr src), (''language'', JStr lang)])
           = Inr response"
    and "status response = 200"
    and "json_body response = Inr (JObj r)"
  shows "(map_of r ''success'' = Some (JBool False) \<longrightarrow> map_of r ''error'' = Some (JStr err) \<longrightarrow>
           execute_code dumps py_repr post base_url kid src lang
             = Inl (Exception (''Execution failed: '' @ err))
           \<and> sublist err (''Execution failed: '' @ err))
       \<and> (map_of r ''success'' = Some (JBool True) \<longrightarrow> map_of r ''messages'' = Some msgs \<longrightarrow>
           execute_code dumps py_repr post base_url kid src lang
             = process_messages dumps msgs)
       \<and> (execute_code dumps py_repr post base_url kid src lang = Inr outs \<longrightarrow>
           (\<exists>ok ms. map_of r ''success'' = Some ok \<and> truthy ok \<and>
              map_of r ''messages'' = Some ms \<and> process_messages dumps ms = Inr outs))"
proof -
  note ex = execute_code_answered[where post = post and base_url = base_url and kid = kid and src = src and lang = lang and response = response and r = r, OF assms, of dumps py_repr]
  have a: "execute_code dumps py_repr post base_url kid src lang
             = Inl (Exception (''Execution failed: '' @ err))"
    if "map_of r ''success'' = Some (JBool False)" "map_of r ''error'' = Some (JStr err)"
    unfolding ex using that by (simp add: py_bind_def)
  have b: "execute_code dumps py_repr post base_url kid src lang
             = process_messages dumps msgs"
    if "map_of r ''success'' = Some (JBool True)" "map_of r ''messages'' = Some msgs"
    using execute_code_success[where post = post and base_url = base_url and kid = kid and src = src and lang = lang and response = response and r = r, OF assms that] .
  have c: "\<exists>ok ms. map_of r ''success'' = Some ok \<and> truthy ok \<and>
              map_of r ''messages'' = Some ms \<and> process_messages dumps ms = Inr outs"
    if "execute_code dumps py_repr post base_url kid src lang = Inr outs"
    using that unfolding ex on_client_error_Inr
    by (simp add: py_bind_def split: option.splits if_splits sum.splits)
  from a b c sublist_after_prefix show ?thesis by (intro conjI impI) 
qed

text \<open>
  The scenario of the specification: the answer \<^verbatim>\<open>{success: false, error: "boom"}\<close>.
\<close>

theorem relay_failure_and_success_witness:
  "status \<lparr>status = 200, text_body = [],
            json_body = Inr (JObj [(''success'', JBool False), (''messages'', JArr []),
                                   (''error'', JStr ''boom'')])\<rparr> = 200
   \<and> execute_code (\<lambda>v. []) (\<lambda>v. [])
        (\<lambda>url payload. Inr \<lparr>status = 200, text_body = [],
            json_body = Inr (JObj [(''success'', JBool False), (''messages'', JArr []),
                                   (''error'', JStr ''boom'')])\<rparr>)
        ''http://localhost:8060'' ''s1'' ''1/0'' ''python''
      = Inl (Exception ''Execution failed: boom'')
   \<and> sublist ''boom'' ''Execution failed: boom''"
  using relay_failure_and_success
    [where post = "\<lambda>url payload. Inr \<lparr>status = 200, text_body = [],
            json_body = Inr (JObj [(''success'', JBool False), (''messages'', JArr []),
                                   (''error'', JStr ''boom'')])\<rparr>"
       and response = "\<lparr>status = 200, text_body = [],
            json_body = Inr (JObj [(''success'', JBool False), (''messages'', JArr []),
                                   (''error'', JStr ''boom'')])\<rparr>"
       and r = "[(''success'', JBool False), (''messages'', JArr []), (''error'', JStr ''boom'')]"
       and err = "''boom''" and base_url = "''http://localhost:8060''" and kid = "''s1''"
       and src = "''1/0''" and lang = "''python''" and dumps = "\<lambda>v. []"
       and py_repr = "\<lambda>v. []"]
  by simp


text \<open>
  Claim C9. A request whose language is neither \<^verbatim>\<open>python\<close> nor \<^verbatim>\<open>bash\<close>: the
  \<^verbatim>\<open>HTTPException(400)\<close> is caught by the handler of the endpoint itself, which returns a
  response model (HTTP status 200) with \<^verbatim>\<open>success=False\<close>, no messages and the formatted
  traceback, a non-empty text, as the error. The pool is untouched.
\<close>

theorem unsupported_language_is_200:
  assumes "language request \<noteq> ''python''" and "language request \<noteq> ''bash''"
  shows "execute_code_endpoint env tb pool request =
           Returns \<lparr>success = False, messages = [],
                    error = Some (format_exc tb (HTTPException 400 (''Unsupported language: '' @ language request)))\<rparr>
                   pool
       \<and> http_status (execute_code_endpoint env tb pool request) = Some 200
       \<and> format_exc tb (HTTPException 400 (''Unsupported language: '' @ language request)) \<noteq> []
       \<and> prefix ''Traceback (most recent call last):'' 
            (format_exc tb (HTTPException 400 (''Unsupported language: '' @ language request)))"
  using assms by (simp add: execute_code_endpoint_def format_exc_def)

text \<open>
  Claim C10. \<open>execute_shell_code\<close> is \<open>execute_python_code\<close> on a rewritten code: the code
  stripped of surrounding whitespace, prefixed with \<^verbatim>\<open>%%bash\<close> and a newline if a newline is
  left in it, with \<^verbatim>\<open>!\<close> otherwise. Same kernel, same collected messages, same
  \<^verbatim>\<open>success=True\<close>, same exceptions; so the endpoint answers a \<^verbatim>\<open>bash\<close> request as it
  answers the \<^verbatim>\<open>python\<close> request with the rewritten code.
\<close>

theorem bash_is_rewritten_python:
  "execute_shell_code env pool request =
     execute_python_code env pool
       (request\<lparr>code := (if CHR 0x0A \<in> set (strip (code request))
                          then ''%%bash\<newline>'' @ strip (code request)
                          else ''!'' @ strip (code request))\<rparr>)
   \<and> (language request = ''bash'' \<longrightarrow>
        execute_code_endpoint env tb pool request =
          execute_code_endpoint env tb pool
            (request\<lparr>language := ''python'',
                     code := (if CHR 0x0A \<in> set (strip (code request))
                              then ''%%bash\<newline>'' @ strip (code request)
                              else ''!'' @ strip (code request))\<rparr>))"
proof -
  have a: "execute_shell_code env pool request =
     execute_python_code env pool
       (request\<lparr>code := (if CHR 0x0A \<in> set (strip (code request))
                          then ''%%bash\<newline>'' @ strip (code request)
                          else ''!'' @ strip (code request))\<rparr>)"
    unfolding execute_shell_code_def execute_python_code_def Let_def
    by (simp split: outcome.split)
  have b: "execute_code_endpoint env tb pool request =
          execute_code_endpoint env tb pool (request\<lparr>language := ''python'', code := c\<rparr>)"
    if "language request = ''bash''" 
       "execute_shell_code env pool request = execute_python_code env pool (request\<lparr>code := c\<rparr>)" for c
  proof -
    have "execute_python_code env pool (request\<lparr>language := ''python'', code := c\<rparr>)
        = execute_python_code env pool (request\<lparr>code := c\<rparr>)"
      by (simp add: execute_python_code_def split: outcome.split)
    then show ?thesis using that by (simp add: execute_code_endpoint_def)
  qed
  from a b[OF _ a] show ?thesis by (intro conjI impI)
qed


theorem unsupported_language_is_200_witness:
  "language \<lparr>kernel_id = ''s1'', code = ''puts 1'', language = ''ruby''\<rparr> \<noteq> ''python''
   \<and> language \<lparr>kernel_id = ''s1'', code = ''puts 1'', language = ''ruby''\<rparr> \<noteq> ''bash''
   \<and> execute_code_endpoint echo_jupyter (\<lambda>e. ''HTTPException'') one_session_pool
        \<lparr>kernel_id = ''s1'', code = ''puts 1'', language = ''ruby''\<rparr>
      = Returns \<lparr>success = False, messages = [],
                 error = Some ''Traceback (most recent call last):\<newline>HTTPException''\<rparr>
                one_session_pool"
  using unsupported_language_is_200 [of "\<lparr>kernel_id = ''s1'', code = ''puts 1'', language = ''ruby''\<rparr>"
          echo_jupyter "\<lambda>e. ''HTTPException''" one_session_pool]
  by (simp add: format_exc_def)

theorem bash_is_rewritten_python_witness:
  "language \<lparr>kernel_id = ''s1'', code = ''  ls\<newline>pwd \<newline>'', language = ''bash''\<rparr> = ''bash''
   \<and> execute_code_endpoint echo_jupyter (\<lambda>e. []) one_session_pool
        \<lparr>kernel_id = ''s1'', code = ''  ls\<newline>pwd \<newline>'', language = ''bash''\<rparr>
     = execute_code_endpoint echo_jupyter (\<lambda>e. []) one_session_pool
        \<lparr>kernel_id = ''s1'', code = ''%%bash\<newline>ls\<newline>pwd'', language = ''python''\<rparr>
   \<and> execute_shell_code echo_jupyter one_session_pool
        \<lparr>kernel_id = ''s1'', code = '' ls -l '', language = ''bash''\<rparr>
     = execute_python_code echo_jupyter one_session_pool
        \<lparr>kernel_id = ''s1'', code = ''!ls -l'', language = ''bash''\<rparr>"
  using bash_is_rewritten_python [of echo_jupyter one_session_pool
          "\<lparr>kernel_id = ''s1'', code = ''  ls\<newline>pwd \<newline>'', language = ''bash''\<rparr>" "\<lambda>e. []"]
        bash_is_rewritten_python [of echo_jupyter one_session_pool
          "\<lparr>kernel_id = ''s1'', code = '' ls -l '', language = ''bash''\<rparr>" "\<lambda>e. []"]
  by (simp add: strip_def py_isspace_def)

lemma attempt_time_mono_step:
  assumes "\<forall>i. 0 \<le> probe_time w i" "\<forall>i. 1 \<le> sleep_time w 1 i"
  shows "attempt_time w i + 1 \<le> attempt_time w (Suc i)"
proof -
  from assms have "0 \<le> probe_time w i" "1 \<le> sleep_time w 1 i" by blast+
  then show ?thesis by simp
qed

lemma attempt_time_lower:
  assumes "\<forall>i. 0 \<le> probe_time w i" "\<forall>i. 1 \<le> sleep_time w 1 i"
  shows "attempt_time w i + real k \<le> attempt_time w (i + k)"
proof (induction k)
  case 0
  show ?case by simp
next
  case (Suc k)
  from attempt_time_mono_step[OF assms, of "i + k"] Suc show ?case by simp
qed

lemma attempt_time_mono:
  assumes "\<forall>i. 0 \<le> probe_time w i" "\<forall>i. 1 \<le> sleep_time w 1 i" "i \<le> j"
  shows "attempt_time w i \<le> attempt_time w j"
proof -
  from attempt_time_lower[OF assms(1,2), of i "j - i"] assms(3)
  have "attempt_time w i + real (j - i) \<le> attempt_time w j" by simp
  then show ?thesis by (smt (verit) of_nat_0_le_iff)
qed

lemma poll_failed_step:
  assumes "failed_attempt w i" "now - s < real_of_int T"
  shows "poll w s T now i = poll w s T (now + probe_time w i + sleep_time w 1 i) (Suc i)"
  using assms by (subst poll.simps) (simp add: failed_attempt_def split: sum.splits)

lemma poll_exit:
  assumes "\<not> now - s < real_of_int T"
  shows "poll w s T now i = Some (Inr False, now)"
  using assms by (subst poll.simps) simp

lemma poll_success:
  assumes "probe w i = Inr 200" "now - s < real_of_int T"
  shows "poll w s T now i = Some (Inr True, now + probe_time w i)"
  using assms by (subst poll.simps) simp

lemma poll_skip:
  assumes "\<forall>j. i \<le> j \<and> j < n \<longrightarrow> failed_attempt w j \<and> attempt_time w j - s < real_of_int T"
    and "i \<le> n"
  shows "poll w s T (attempt_time w i) i = poll w s T (attempt_time w n) n"
  using assms
proof (induction "n - i" arbitrary: i)
  case 0
  then show ?case by simp
next
  case (Suc d)
  then have lt: "i < n" by linarith
  with Suc.prems have f: "failed_attempt w i" "attempt_time w i - s < real_of_int T" by auto
  have "poll w s T (attempt_time w i) i = poll w s T (attempt_time w (Suc i)) (Suc i)"
    using poll_failed_step[OF f] by simp
  also have "\<dots> = poll w s T (attempt_time w n) n"
  proof (rule Suc.hyps(1))
    show "d = n - Suc i" using Suc.hyps(2) by linarith
    show "\<forall>j. Suc i \<le> j \<and> j < n \<longrightarrow> failed_attempt w j \<and> attempt_time w j - s < real_of_int T"
      using Suc.prems(1) by auto
    show "Suc i \<le> n" using lt by simp
  qed
  finally show ?case .
qed

text \<open>
  Claim C7. The clock does not run backwards during a probe and a sleep of one second
  takes at least one second. Then, whatever the timeout: against a probe that never
  succeeds \<open>health_check\<close> returns \<^verbatim>\<open>False\<close> (it neither raises nor runs forever), and the
  clock then reads at least the starting time plus the timeout; if the \<open>n\<close>-th attempt is
  the first to be answered with 200 and begins within the bound, \<open>health_check\<close> returns
  \<^verbatim>\<open>True\<close> at the end of that probe; successive attempts are one probe and one sleep of
  one second apart; and the timeout defaults to 60.
\<close>

theorem health_check_bounded:
  assumes "\<forall>i. 0 \<le> probe_time w i" and "\<forall>i. 1 \<le> sleep_time w 1 i" and "0 \<le> setup_time w"
  shows "((\<forall>i. failed_attempt w i) \<longrightarrow>
            (\<exists>t. health_check w (Some timeout) = Some (Inr False, t)
                 \<and> start_clock w + real_of_int timeout \<le> t))
       \<and> (\<forall>n. (\<forall>i<n. failed_attempt w i) \<and> probe w n = Inr 200
                \<and> attempt_time w n - start_clock w < real_of_int timeout \<longrightarrow>
              health_check w (Some timeout) = Some (Inr True, attempt_time w n + probe_time w n))
       \<and> health_check w None = health_check w (Some 60)"
proof (intro conjI impI allI)
  let ?s = "start_clock w" and ?T = "real_of_int timeout"
  have hc: "health_check w (Some timeout) = poll w ?s timeout (attempt_time w 0) 0"
    by (simp add: health_check_def Let_def)
  show "health_check w None = health_check w (Some 60)"
    by (simp add: health_check_def Let_def)
  {
    assume fail: "\<forall>i. failed_attempt w i"
    define P where "P n \<longleftrightarrow> \<not> attempt_time w n - ?s < ?T" for n
    have "attempt_time w 0 + real (nat \<lceil>?T\<rceil>) \<le> attempt_time w (0 + nat \<lceil>?T\<rceil>)"
      by (rule attempt_time_lower[OF assms(1,2)])
    moreover have "?s \<le> attempt_time w 0" using assms(3) by simp
    moreover have "?T \<le> real (nat \<lceil>?T\<rceil>)" by linarith
    ultimately have "P (nat \<lceil>?T\<rceil>)" unfolding P_def by simp
    then have ex: "\<exists>n. P n" ..
    define n where "n = (LEAST n. P n)"
    have Pn: "P n" unfolding n_def using ex by (rule LeastI_ex)
    have below: "\<not> P j" if "j < n" for j using that not_less_Least unfolding n_def by blast
    have "poll w ?s timeout (attempt_time w 0) 0 = poll w ?s timeout (attempt_time w n) n"
      by (rule poll_skip) (use fail below in \<open>auto simp: P_def\<close>)
    also have "\<dots> = Some (Inr False, attempt_time w n)"
      by (rule poll_exit) (use Pn in \<open>simp add: P_def\<close>)
    finally have "health_check w (Some timeout) = Some (Inr False, attempt_time w n)"
      by (simp add: hc)
    moreover have "?s + ?T \<le> attempt_time w n" using Pn unfolding P_def by linarith
    ultimately show "\<exists>t. health_check w (Some timeout) = Some (Inr False, t) \<and> ?s + ?T \<le> t"
      by blast
  }
  {
    fix n
    assume a: "(\<forall>i<n. failed_attempt w i) \<and> probe w n = Inr 200 \<and> attempt_time w n - ?s < ?T"
    have "poll w ?s timeout (attempt_time w 0) 0 = poll w ?s timeout (attempt_time w n) n"
    proof (rule poll_skip)
      show "\<forall>j. 0 \<le> j \<and> j < n \<longrightarrow> failed_attempt w j \<and> attempt_time w j - ?s < ?T"
      proof (intro allI impI conjI)
        fix j assume j: "0 \<le> j \<and> j < n"
        then show "failed_attempt w j" using a by blast
        from attempt_time_mono[OF assms(1,2), of j n] j have "attempt_time w j \<le> attempt_time w n" by simp
        with a show "attempt_time w j - ?s < ?T" by linarith
      qed
    qed simp
    also have "\<dots> = Some (Inr True, attempt_time w n + probe_time w n)"
      by (rule poll_success) (use a in auto)
    finally show "health_check w (Some timeout) = Some (Inr True, attempt_time w n + probe_time w n)"
      by (simp add: hc)
  }
qed


text \<open>
  A service that refuses every connection, polled with a timeout of 2 seconds from time
  100: attempts at 100 and 101, \<^verbatim>\<open>False\<close> at 102.
\<close>

lemma refusing_world_times_out:
  "health_check refusing_world (Some 2) = Some (Inr False, 102)"
  by (simp add: health_check_def poll.simps refusing_world_def)

theorem health_check_bounded_witness:
  "(\<forall>i. 0 \<le> probe_time refusing_world i) \<and> (\<forall>i. 1 \<le> sleep_time refusing_world 1 i)
   \<and> (\<forall>i. failed_attempt refusing_world i)
   \<and> (\<exists>t. health_check refusing_world (Some 2) = Some (Inr False, t) \<and> 102 \<le> t)
   \<and> probe warming_world 1 = Inr 200
   \<and> health_check warming_world (Some 2) = Some (Inr True, 101)"
proof -
  have timing: "\<forall>i. 0 \<le> probe_time refusing_world i" "\<forall>i. 1 \<le> sleep_time refusing_world 1 i"
      "0 \<le> setup_time refusing_world"
    by (simp_all add: refusing_world_def)
  have fails: "\<forall>i. failed_attempt refusing_world i"
    by (simp add: refusing_world_def failed_attempt_def)
  have timing2: "\<forall>i. 0 \<le> probe_time warming_world i" "\<forall>i. 1 \<le> sleep_time warming_world 1 i"
      "0 \<le> setup_time warming_world"
    by (simp_all add: warming_world_def)
  have ok: "(\<forall>i<1. failed_attempt warming_world i) \<and> probe warming_world 1 = Inr 200
      \<and> attempt_time warming_world 1 - start_clock warming_world < real_of_int 2"
    by (simp add: warming_world_def failed_attempt_def)
  from health_check_bounded[OF timing, of 2] fails
  have a: "\<exists>t. health_check refusing_world (Some 2) = Some (Inr False, t) \<and> 102 \<le> t"
    by (simp add: refusing_world_def)
  from health_check_bounded[OF timing2, of 2] ok
  have "health_check warming_world (Some 2)
      = Some (Inr True, attempt_time warming_world 1 + probe_time warming_world 1)"
    by blast
  then have b: "health_check warming_world (Some 2) = Some (Inr True, 101)"
    by (simp add: warming_world_def)
  from timing fails a ok b show ?thesis by blast
qed

lemma set_pc_fields [simp]:
  "p_kernels (set_pc i p s) = p_kernels s"
  "p_kernel_locks (set_pc i p s) = p_kernel_locks s"
  "p_lock_held (set_pc i p s) = p_lock_held s"
  "held (set_pc i p s) = held s"
  "n_locks (set_pc i p s) = n_locks s"
  "n_kernels (set_pc i p s) = n_kernels s"
  "constructed (set_pc i p s) = constructed s"
  "length (calls (set_pc i p s)) = length (calls s)"
  by (simp_all add: set_pc_def)

lemma pc_at_set_pc [simp]:
  "i < length (calls s) \<Longrightarrow> pc_at (set_pc i p s) j = (if j = i then p else pc_at s j)"
  by (auto simp: set_pc_def pc_at_def)

lemma id_at_set_pc [simp]: "id_at (set_pc i p s) j = id_at s j"
  by (cases "i < length (calls s)") (auto simp: set_pc_def id_at_def nth_list_update list_update_beyond)

lemma pc_at_updates [simp]:
  "pc_at (s\<lparr>p_kernels := a\<rparr>) j = pc_at s j"
  "pc_at (s\<lparr>p_kernel_locks := b\<rparr>) j = pc_at s j"
  "pc_at (s\<lparr>p_lock_held := c\<rparr>) j = pc_at s j"
  "pc_at (s\<lparr>held := d\<rparr>) j = pc_at s j"
  "pc_at (s\<lparr>n_locks := e\<rparr>) j = pc_at s j"
  "pc_at (s\<lparr>n_kernels := f\<rparr>) j = pc_at s j"
  "pc_at (s\<lparr>constructed := g\<rparr>) j = pc_at s j"
  by (simp_all add: pc_at_def)

lemma id_at_updates [simp]:
  "id_at (s\<lparr>p_kernels := a\<rparr>) j = id_at s j"
  "id_at (s\<lparr>p_kernel_locks := b\<rparr>) j = id_at s j"
  "id_at (s\<lparr>p_lock_held := c\<rparr>) j = id_at s j"
  "id_at (s\<lparr>held := d\<rparr>) j = id_at s j"
  "id_at (s\<lparr>n_locks := e\<rparr>) j = id_at s j"
  "id_at (s\<lparr>n_kernels := f\<rparr>) j = id_at s j"
  "id_at (s\<lparr>constructed := g\<rparr>) j = id_at s j"
  by (simp_all add: id_at_def)

lemma constructed_for_set_pc [simp]: "constructed_for kid (set_pc i p s) = constructed_for kid s"
  by (simp add: constructed_for_def)

lemma constructed_for_updates [simp]:
  "constructed_for kid (s\<lparr>p_kernels := a\<rparr>) = constructed_for kid s"
  "constructed_for kid (s\<lparr>p_kernel_locks := b\<rparr>) = constructed_for kid s"
  "constructed_for kid (s\<lparr>p_lock_held := c\<rparr>) = constructed_for kid s"
  "constructed_for kid (s\<lparr>held := d\<rparr>) = constructed_for kid s"
  "constructed_for kid (s\<lparr>n_locks := e\<rparr>) = constructed_for kid s"
  "constructed_for kid (s\<lparr>n_kernels := f\<rparr>) = constructed_for kid s"
  "constructed_for kid (s\<lparr>constructed := g @ [(k, r)]\<rparr>)
     = map snd (filter (\<lambda>c. fst c = kid) g) @ (if k = kid then [r] else [])"
  "map snd (filter (\<lambda>c. fst c = kid) (constructed s)) = constructed_for kid s"
  by (simp_all add: constructed_for_def)



lemma length_filter_update:
  "i < length xs \<Longrightarrow>
     length (filter P (xs[i := y])) =
       length (filter P xs) + (if P y then 1 else 0) - (if P (xs ! i) then 1 else 0)"
proof (induction xs arbitrary: i)
  case Nil
  then show ?case by simp
next
  case (Cons x xs)
  show ?case
  proof (cases i)
    case 0
    then show ?thesis by simp
  next
    case (Suc k)
    with Cons.prems have k: "k < length xs" by simp
    have pos: "P (xs ! k) \<Longrightarrow> 0 < length (filter P xs)"
      using k by (metis filter_empty_conv length_greater_0_conv nth_mem)
    from Cons.IH[OF k] Suc pos show ?thesis by auto
  qed
qed

lemma length_filter_le:
  "(\<And>x. x \<in> set xs \<Longrightarrow> P x \<Longrightarrow> Q x) \<Longrightarrow> length (filter P xs) \<le> length (filter Q xs)"
  by (induction xs) auto

lemma length_filter_less:
  "i < length xs \<Longrightarrow> Q (xs ! i) \<Longrightarrow> \<not> P (xs ! i) \<Longrightarrow>
   (\<And>x. x \<in> set xs \<Longrightarrow> P x \<Longrightarrow> Q x) \<Longrightarrow>
   length (filter P xs) < length (filter Q xs)"
proof (induction xs arbitrary: i)
  case Nil
  then show ?case by simp
next
  case (Cons x xs)
  show ?case
  proof (cases i)
    case 0
    have "length (filter P xs) \<le> length (filter Q xs)"
      by (rule length_filter_le) (use Cons.prems(4) in auto)
    with 0 Cons.prems(2,3) show ?thesis by simp
  next
    case (Suc k)
    have "length (filter P xs) < length (filter Q xs)"
      by (rule Cons.IH[of k]) (use Suc Cons.prems in auto)
    moreover have "P x \<Longrightarrow> Q x" using Cons.prems(4) by simp
    ultimately show ?thesis by auto
  qed
qed

lemma in_set_update: "c \<in> set (xs[i := y]) \<Longrightarrow> c = y \<or> c \<in> set xs"
  using set_update_subset_insert[of xs i y] by auto

lemma calls_set_pc [simp]:
  "calls (set_pc i p s) = (calls s)[i := (calls s ! i)\<lparr>pc := p\<rparr>]"
  by (simp add: set_pc_def)




lemma nth_call [simp]: "i < length (calls s) \<Longrightarrow> calls s ! i \<in> set (calls s)"
  by simp




lemma total_left_updates [simp]:
  "total_left (s\<lparr>p_kernels := a\<rparr>) = total_left s"
  "total_left (s\<lparr>p_kernel_locks := b\<rparr>) = total_left s"
  "total_left (s\<lparr>p_lock_held := c\<rparr>) = total_left s"
  "total_left (s\<lparr>held := d\<rparr>) = total_left s"
  "total_left (s\<lparr>n_locks := e\<rparr>) = total_left s"
  "total_left (s\<lparr>n_kernels := f\<rparr>) = total_left s"
  "total_left (s\<lparr>constructed := g\<rparr>) = total_left s"
  by (simp_all add: total_left_def)



lemma filter_update_empty:
  "filter P xs = [] \<Longrightarrow> \<not> P y \<Longrightarrow> filter P (xs[i := y]) = []"
  by (auto simp: filter_empty_conv dest!: in_set_update)

lemma bringing_up_simps [simp]:
  "bringing_up kid (c\<lparr>pc := p\<rparr>) = (call_id c = kid \<and> creating p \<noteq> None)"
  by (simp add: bringing_up_def)












lemma callers_update [simp]: "map call_id (xs[i := (xs ! i)\<lparr>pc := p\<rparr>]) = map call_id xs"
  by (induction xs arbitrary: i) (auto split: nat.splits)











lemma flight_after_append:
  "flight_after f (es @ es') =
     (case flight_after f es of None \<Rightarrow> None | Some f' \<Rightarrow> flight_after f' es')"
  by (induction f es rule: flight_after.induct) simp_all

lemma set_exec_pc_fields [simp]:
  "execution_lock_held (set_exec_pc i p s) = execution_lock_held s"
  "iopub_channel (set_exec_pc i p s) = iopub_channel s"
  "history (set_exec_pc i p s) = history s"
  "executions (set_exec_pc i p s) = (executions s)[i := (executions s ! i)\<lparr>exec_pc := p\<rparr>]"
  by (simp_all add: set_exec_pc_def)

lemma in_flight_simps [simp]:
  "in_flight (x\<lparr>exec_pc := p\<rparr>) = (p = Acquired \<or> p = Reading)"
  "reading (x\<lparr>exec_pc := p\<rparr>) = (p = Reading)"
  by (simp_all add: in_flight_def reading_def)

lemma act_cases [consumes 1, case_names acquire send bad_type bad_idle idle more publish
    cancel_queued cancel_reading]:
  assumes "act a s = Some s1"
  obtains
    i where "a = Step i" "i < length (executions s)" "exec_pc (executions s ! i) = Queued"
      "\<not> execution_lock_held s"
      "s1 = set_exec_pc i Acquired (s\<lparr>execution_lock_held := True\<rparr>)"
  | i where "a = Step i" "i < length (executions s)" "exec_pc (executions s ! i) = Acquired"
      "s1 = set_exec_pc i Reading
              (s\<lparr>history := history s @ [Sent i (exec_code (executions s ! i))]\<rparr>)"
  | i reply rest e where "a = Step i" "i < length (executions s)"
      "exec_pc (executions s ! i) = Reading" "iopub_channel s = reply # rest"
      "py_get reply ''msg_type'' JNull = Inl e"
      "s1 = set_exec_pc i Over
              (s\<lparr>execution_lock_held := False, iopub_channel := rest,
                 history := history s @ [Ended i (Failed e)]\<rparr>)"
  | i reply rest msg_type e where "a = Step i" "i < length (executions s)"
      "exec_pc (executions s ! i) = Reading" "iopub_channel s = reply # rest"
      "py_get reply ''msg_type'' JNull = Inr msg_type" "is_idle msg_type reply = Inl e"
      "s1 = set_exec_pc i Over
              (s\<lparr>execution_lock_held := False, iopub_channel := rest,
                 history := history s @ [Got i reply, Ended i (Failed e)]\<rparr>)"
  | i reply rest msg_type where "a = Step i" "i < length (executions s)"
      "exec_pc (executions s ! i) = Reading" "iopub_channel s = reply # rest"
      "py_get reply ''msg_type'' JNull = Inr msg_type" "is_idle msg_type reply = Inr True"
      "s1 = set_exec_pc i Over
              (s\<lparr>execution_lock_held := False, iopub_channel := rest,
                 history := history s @ [Got i reply, Ended i Idle]\<rparr>)"
  | i reply rest msg_type where "a = Step i" "i < length (executions s)"
      "exec_pc (executions s ! i) = Reading" "iopub_channel s = reply # rest"
      "py_get reply ''msg_type'' JNull = Inr msg_type" "is_idle msg_type reply = Inr False"
      "s1 = s\<lparr>iopub_channel := rest, history := history s @ [Got i reply]\<rparr>"
  | m where "a = Publish m" "s1 = s\<lparr>iopub_channel := iopub_channel s @ [m]\<rparr>"
  | i where "a = Cancel i" "i < length (executions s)" "exec_pc (executions s ! i) = Queued"
      "s1 = set_exec_pc i Over s"
  | i where "a = Cancel i" "i < length (executions s)" "exec_pc (executions s ! i) = Reading"
      "s1 = set_exec_pc i Over
              (s\<lparr>execution_lock_held := False, history := history s @ [Ended i Cancelled]\<rparr>)"
proof (cases a)
  case (Step i)
  with assms have st: "step_call i s = Some s1" by simp
  then have len: "i < length (executions s)" by (simp add: step_call_def split: if_splits)
  show thesis
  proof (cases "exec_pc (executions s ! i)")
    case Queued
    with st len Step that(1) show thesis by (simp add: step_call_def split: if_splits)
  next
    case Acquired
    with st len Step that(2) show thesis by (simp add: step_call_def)
  next
    case Reading
    from st len Reading obtain reply rest where ch: "iopub_channel s = reply # rest"
      by (cases "iopub_channel s") (simp_all add: step_call_def)
    show thesis
    proof (cases "py_get reply ''msg_type'' JNull")
      case (Inl e)
      with st len Reading ch Step that(3) show thesis by (simp add: step_call_def)
    next
      case (Inr msg_type)
      show thesis
      proof (cases "is_idle msg_type reply")
        case (Inl e)
        with st len Reading ch Step Inr that(4) show thesis by (simp add: step_call_def)
      next
        case b: (Inr b)
        show thesis
        proof (cases b)
          case True
          with st len Reading ch Step Inr b that(5) show thesis by (simp add: step_call_def)
        next
          case False
          with st len Reading ch Step Inr b that(6) show thesis by (simp add: step_call_def)
        qed
      qed
    qed
  next
    case Over
    with st len show thesis by (simp add: step_call_def)
  qed
next
  case (Publish m)
  with assms that(7) show thesis by auto
next
  case (Cancel i)
  with assms have st: "cancel_call i s = Some s1" by simp
  then have len: "i < length (executions s)" by (simp add: cancel_call_def split: if_splits)
  from st len Cancel that(8,9) show thesis
    by (cases "exec_pc (executions s ! i)") (simp_all add: cancel_call_def)
qed


lemma unique_index:
  "length (filter P xs) \<le> 1 \<Longrightarrow> i < length xs \<Longrightarrow> j < length xs \<Longrightarrow> P (xs ! i) \<Longrightarrow>
   P (xs ! j) \<Longrightarrow> i = j"
proof (induction xs arbitrary: i j)
  case Nil
  then show ?case by simp
next
  case (Cons x xs)
  have pos: "0 < length (filter P xs)" if "k < length xs" "P (xs ! k)" for k
    using that by (metis filter_empty_conv length_greater_0_conv nth_mem)
  show ?case
  proof (cases i)
    case i0: 0
    show ?thesis
    proof (cases j)
      case 0
      with i0 show ?thesis by simp
    next
      case (Suc k)
      with Cons.prems i0 pos[of k] show ?thesis by auto
    qed
  next
    case (Suc k)
    show ?thesis
    proof (cases j)
      case 0
      with Cons.prems Suc pos[of k] show ?thesis by auto
    next
      case j: (Suc k')
      from Cons.prems(1) have "length (filter P xs) \<le> 1" by (auto split: if_splits)
      from Cons.IH[OF this, of k k'] Cons.prems Suc j show ?thesis by simp
    qed
  qed
qed

lemma reading_in_flight: "reading x \<Longrightarrow> in_flight x"
  by (simp add: reading_def in_flight_def)

lemma inv_lock:
  "session_inv s \<Longrightarrow>
   length (filter in_flight (executions s)) = (if execution_lock_held s then 1 else 0)"
  by (simp add: session_inv_def)

lemma inv_flight:
  assumes "session_inv s"
  obtains "flight_after Nobody (history s) = Some Nobody" "filter reading (executions s) = []"
  | j where "flight_after Nobody (history s) = Some (Flying j False)"
      "j < length (executions s)" "exec_pc (executions s ! j) = Reading"
proof (cases "flight_after Nobody (history s)")
  case None
  with assms show thesis by (simp add: session_inv_def)
next
  case (Some f)
  show thesis
  proof (cases f)
    case Nobody
    with assms Some that(1) show thesis by (simp add: session_inv_def)
  next
    case (Flying j b)
    with assms Some that(2)[of j] show thesis by (simp add: session_inv_def)
  qed
qed

lemma inv_count:
  assumes "session_inv s"
  shows "length (filter in_flight (executions s)) \<le> 1"
    and "length (filter reading (executions s)) \<le> 1"
proof -
  from inv_lock[OF assms] show a: "length (filter in_flight (executions s)) \<le> 1"
    by (cases "execution_lock_held s") simp_all
  have "length (filter reading (executions s)) \<le> length (filter in_flight (executions s))"
    by (rule length_filter_le) (rule reading_in_flight)
  with a show "length (filter reading (executions s)) \<le> 1" by simp
qed

text \<open>The execution that is reading is the one in flight, and the lock is held for it.\<close>

lemma reader_flies:
  assumes inv: "session_inv s" and i: "i < length (executions s)"
    and r: "exec_pc (executions s ! i) = Reading"
  shows "flight_after Nobody (history s) = Some (Flying i False)"
    and "execution_lock_held s"
    and "length (filter in_flight (executions s)) = 1"
    and "length (filter reading (executions s)) = 1"
proof -
  from i have mem: "executions s ! i \<in> set (executions s)" by simp
  from r have rd: "reading (executions s ! i)" by (simp add: reading_def)
  with mem have ne: "filter reading (executions s) \<noteq> []" by (auto simp: filter_empty_conv)
  from rd mem have ne2: "filter in_flight (executions s) \<noteq> []"
    by (auto simp: filter_empty_conv dest: reading_in_flight)
  from ne inv_count(2)[OF inv] show c: "length (filter reading (executions s)) = 1"
    by (cases "filter reading (executions s)") auto
  from ne2 inv_count(1)[OF inv] show "length (filter in_flight (executions s)) = 1"
    by (cases "filter in_flight (executions s)") auto
  with inv_lock[OF inv] show "execution_lock_held s"
    by (cases "execution_lock_held s") simp_all
  from inv show "flight_after Nobody (history s) = Some (Flying i False)"
  proof (cases rule: inv_flight)
    case 1
    with ne show ?thesis by simp
  next
    case (2 j)
    from 2(3) have "reading (executions s ! j)" by (simp add: reading_def)
    from unique_index[OF inv_count(2)[OF inv] 2(2) i this rd] 2(1) show ?thesis by simp
  qed
qed

text \<open>While an execution has the lock and has not sent its code, nobody is in flight.\<close>

lemma acquired_alone:
  assumes inv: "session_inv s" and i: "i < length (executions s)"
    and a: "exec_pc (executions s ! i) = Acquired"
  shows "flight_after Nobody (history s) = Some Nobody"
    and "filter reading (executions s) = []"
proof -
  have "length (filter reading (executions s)) < length (filter in_flight (executions s))"
    by (rule length_filter_less[where i = i and P = reading and Q = in_flight, OF i])
       (use a in \<open>simp_all add: in_flight_def reading_def\<close>)
  with inv_count(1)[OF inv] have "length (filter reading (executions s)) = 0" by linarith
  then show e: "filter reading (executions s) = []" by (simp only: length_0_conv)
  from inv show "flight_after Nobody (history s) = Some Nobody"
  proof (cases rule: inv_flight)
    case 1
    then show ?thesis by simp
  next
    case (2 j)
    then have "executions s ! j \<in> set (filter reading (executions s))"
      by (simp add: reading_def)
    with e show ?thesis by simp
  qed
qed


lemma session_inv_nobody:
  "length (filter in_flight (executions s)) = (if execution_lock_held s then 1 else 0) \<Longrightarrow>
   flight_after Nobody (history s) = Some Nobody \<Longrightarrow> filter reading (executions s) = [] \<Longrightarrow>
   session_inv s"
  by (simp add: session_inv_def)

lemma session_inv_flying:
  "length (filter in_flight (executions s)) = (if execution_lock_held s then 1 else 0) \<Longrightarrow>
   flight_after Nobody (history s) = Some (Flying i False) \<Longrightarrow> i < length (executions s) \<Longrightarrow>
   exec_pc (executions s ! i) = Reading \<Longrightarrow> session_inv s"
  by (simp add: session_inv_def)

text \<open>The call that is reading ends: the lock is released and nobody is in flight.\<close>

lemma reader_ends:
  assumes inv: "session_inv s" and i: "i < length (executions s)"
    and r: "exec_pc (executions s ! i) = Reading"
    and h: "flight_after (Flying i False) es = Some Nobody"
  shows "session_inv (set_exec_pc i Over
           (s\<lparr>execution_lock_held := False, iopub_channel := ch, history := history s @ es\<rparr>))"
proof (rule session_inv_nobody)
  let ?s1 = "set_exec_pc i Over
           (s\<lparr>execution_lock_held := False, iopub_channel := ch, history := history s @ es\<rparr>)"
  from r have fl: "in_flight (executions s ! i)" "reading (executions s ! i)"
    by (simp_all add: in_flight_def reading_def)
  show "length (filter in_flight (executions ?s1)) = (if execution_lock_held ?s1 then 1 else 0)"
    using reader_flies(3)[OF inv i r] i fl by (simp add: length_filter_update)
  show "flight_after Nobody (history ?s1) = Some Nobody"
    using reader_flies(1)[OF inv i r] h by (simp add: flight_after_append)
  have "length (filter reading (executions ?s1)) = 0"
    using reader_flies(4)[OF inv i r] i fl by (simp add: length_filter_update)
  then show "filter reading (executions ?s1) = []" by (simp only: length_0_conv)
qed

lemma session_inv_act:
  assumes "act a s = Some s1" and inv: "session_inv s"
  shows "session_inv s1"
  using assms(1)
proof (cases rule: act_cases)
  case (acquire i)
  then have nf: "\<not> in_flight (executions s ! i)" "\<not> reading (executions s ! i)"
    by (simp_all add: in_flight_def reading_def)
  have cnt: "length (filter in_flight (executions s1)) = (if execution_lock_held s1 then 1 else 0)"
    using inv_lock[OF inv] acquire nf by (simp add: length_filter_update)
  from inv show ?thesis
  proof (cases rule: inv_flight)
    case 1
    show ?thesis
      by (rule session_inv_nobody[OF cnt]) (use 1 acquire in \<open>simp_all add: filter_update_empty\<close>)
  next
    case (2 j)
    with acquire have "j \<noteq> i" by auto
    with 2 acquire show ?thesis
      by (intro session_inv_flying[OF cnt, of j]) simp_all
  qed
next
  case (send i)
  then have fl: "in_flight (executions s ! i)" by (simp add: in_flight_def)
  have cnt: "length (filter in_flight (executions s1)) = (if execution_lock_held s1 then 1 else 0)"
    using inv_lock[OF inv] send fl by (simp add: length_filter_update)
  show ?thesis
    by (rule session_inv_flying[OF cnt, of i])
       (use send acquired_alone(1)[OF inv send(2,3)] in \<open>simp_all add: flight_after_append\<close>)
next
  case (bad_type i reply rest e)
  show ?thesis unfolding bad_type(6)
    by (rule reader_ends[OF inv bad_type(2,3)]) simp
next
  case (bad_idle i reply rest msg_type e)
  show ?thesis unfolding bad_idle(7)
    by (rule reader_ends[OF inv bad_idle(2,3)]) simp
next
  case (idle i reply rest msg_type)
  then have "idle_reply reply" by (simp add: idle_reply_def)
  then show ?thesis unfolding idle(7)
    by (intro reader_ends[OF inv idle(2,3)]) simp
next
  case (more i reply rest msg_type)
  then have ni: "\<not> idle_reply reply" by (simp add: idle_reply_def)
  have cnt: "length (filter in_flight (executions s1)) = (if execution_lock_held s1 then 1 else 0)"
    using inv_lock[OF inv] more by simp
  show ?thesis
    by (rule session_inv_flying[OF cnt, of i])
       (use more ni reader_flies(1)[OF inv more(2,3)] in \<open>simp_all add: flight_after_append\<close>)
next
  case (publish m)
  from inv show ?thesis
  proof (cases rule: inv_flight)
    case 1
    with publish inv_lock[OF inv] show ?thesis by (intro session_inv_nobody) simp_all
  next
    case (2 j)
    with publish inv_lock[OF inv] show ?thesis by (intro session_inv_flying[of _ j]) simp_all
  qed
next
  case (cancel_queued i)
  then have nf: "\<not> in_flight (executions s ! i)" "\<not> reading (executions s ! i)"
    by (simp_all add: in_flight_def reading_def)
  have cnt: "length (filter in_flight (executions s1)) = (if execution_lock_held s1 then 1 else 0)"
    using inv_lock[OF inv] cancel_queued nf by (simp add: length_filter_update)
  from inv show ?thesis
  proof (cases rule: inv_flight)
    case 1
    show ?thesis
      by (rule session_inv_nobody[OF cnt]) (use 1 cancel_queued in \<open>simp_all add: filter_update_empty\<close>)
  next
    case (2 j)
    with cancel_queued have "j \<noteq> i" by auto
    with 2 cancel_queued show ?thesis
      by (intro session_inv_flying[OF cnt, of j]) simp_all
  qed
next
  case (cancel_reading i)
  have "session_inv (set_exec_pc i Over
           (s\<lparr>execution_lock_held := False, iopub_channel := iopub_channel s,
              history := history s @ [Ended i Cancelled]\<rparr>))"
    by (rule reader_ends[OF inv cancel_reading(2,3)]) simp
  with cancel_reading(4) show ?thesis by simp
qed


lemma session_inv_run:
  "run_session sched s = Some s1 \<Longrightarrow> session_inv s \<Longrightarrow> session_inv s1"
proof (induction sched arbitrary: s)
  case Nil
  then show ?case by simp
next
  case (Cons a sched)
  from Cons.prems(1) obtain s2 where a: "act a s = Some s2" and r: "run_session sched s2 = Some s1"
    by (auto split: option.splits)
  from Cons.IH[OF r session_inv_act[OF a Cons.prems(2)]] show ?case .
qed

lemma session_inv_fresh: "fresh s \<Longrightarrow> session_inv s"
proof -
  assume f: "fresh s"
  then have q: "\<And>x. x \<in> set (executions s) \<Longrightarrow> exec_pc x = Queued"
    and l: "\<not> execution_lock_held s" and h: "history s = []"
    unfolding fresh_def by blast+
  have "filter in_flight (executions s) = []" "filter reading (executions s) = []"
    using q by (auto simp: filter_empty_conv in_flight_def reading_def)
  with l h show ?thesis by (intro session_inv_nobody) simp_all
qed

lemma no_failure_act:
  assumes "act a s = Some s1" and "no_failure s" and "list_all well_formed (published [a])"
  shows "no_failure s1"
  using assms(1)
proof (cases rule: act_cases)
  case (bad_type i reply rest e)
  with assms(2) show ?thesis by (simp add: no_failure_def well_formed_def)
next
  case (bad_idle i reply rest msg_type e)
  with assms(2) show ?thesis by (simp add: no_failure_def well_formed_def)
qed (use assms(2,3) in \<open>simp_all add: no_failure_def\<close>)

lemma published_Cons: "published (a # sched) = published [a] @ published sched"
  by (cases a) simp_all

lemma no_failure_run:
  "run_session sched s = Some s1 \<Longrightarrow> no_failure s \<Longrightarrow> list_all well_formed (published sched) \<Longrightarrow>
   no_failure s1"
proof (induction sched arbitrary: s)
  case Nil
  then show ?case by simp
next
  case (Cons a sched)
  from Cons.prems(1) obtain s2 where a: "act a s = Some s2" and r: "run_session sched s2 = Some s1"
    by (auto split: option.splits)
  from Cons.prems(3) have w: "list_all well_formed (published [a])" "list_all well_formed (published sched)"
    by (simp_all add: published_Cons[of a sched])
  from Cons.IH[OF r no_failure_act[OF a Cons.prems(2) w(1)] w(2)] show ?case .
qed

text \<open>
  Claim C2. From a session on which no call has run yet, under every interleaving of the
  calls of \<open>execute_raw\<close>, of the messages the interpreter publishes and of cancellations:
  at most one call has the lock; the history is serialized, that is, a call hands its
  code to the interpreter only when the call before it has ended, and every message
  yielded between the sending of a code and the end of that call is yielded to that
  call; and if every message is well formed, a call that has sent its code ends only on
  the idle status it has yielded or by cancellation.
\<close>

theorem execute_raw_serialized:
  assumes "fresh s0" and "run_session sched s0 = Some s"
  shows "serialized (history s)
       \<and> length (filter in_flight (executions s)) \<le> 1
       \<and> (list_all well_formed (iopub_channel s0 @ published sched) \<longrightarrow>
            \<not> list_ex is_failure (history s))"
proof -
  have inv: "session_inv s"
    by (rule session_inv_run[OF assms(2) session_inv_fresh[OF assms(1)]])
  from inv have a: "serialized (history s)"
    by (cases rule: inv_flight) (simp_all add: serialized_def)
  have c: "\<not> list_ex is_failure (history s)" if "list_all well_formed (iopub_channel s0 @ published sched)"
  proof -
    from assms(1) that have "no_failure s0" by (simp add: no_failure_def fresh_def)
    from no_failure_run[OF assms(2) this] that show ?thesis by (simp add: no_failure_def)
  qed
  from a inv_count(1)[OF inv] c show ?thesis by blast
qed

text \<open>
  Two calls on one session: the first sends its code and yields up to its idle status;
  only then does the second send its code. While the first is in flight the second
  cannot take the lock.
\<close>

lemma two_executions_run:
  "map_option history (run_session two_executions_schedule two_executions) = Some two_executions_history"
  by (simp add: two_executions_schedule_def two_executions_def two_executions_history_def
        step_call_def set_exec_pc_def busy_status_def idle_status_def echo_stream_def is_idle_def
        py_bind_def)

lemma second_call_waits:
  "run_session [Step 0, Step 0, Step (Suc 0)] two_executions = None"
  by (simp add: two_executions_def step_call_def set_exec_pc_def)

theorem execute_raw_serialized_witness:
  "fresh two_executions
   \<and> map_option history (run_session two_executions_schedule two_executions)
       = Some two_executions_history
   \<and> list_all well_formed (iopub_channel two_executions @ published two_executions_schedule)
   \<and> serialized two_executions_history
   \<and> \<not> list_ex is_failure two_executions_history"
proof -
  have f: "fresh two_executions" by (simp add: fresh_def two_executions_def)
  from two_executions_run obtain s where
    r: "run_session two_executions_schedule two_executions = Some s"
    and h: "history s = two_executions_history"
    by (cases "run_session two_executions_schedule two_executions") auto
  have w: "list_all well_formed (iopub_channel two_executions @ published two_executions_schedule)"
    by (simp add: two_executions_def two_executions_schedule_def well_formed_def busy_status_def
          idle_status_def echo_stream_def is_idle_def py_bind_def)
  from execute_raw_serialized[OF f r] w h
  have "serialized two_executions_history" "\<not> list_ex is_failure two_executions_history"
    by simp_all
  with f two_executions_run w show ?thesis by simp
qed

end
